theory Spec2Isabelle
  imports Complex_Main "HOL-Library.Word" "HOL-Library.Monad_Syntax" "HOL-Library.Log_Nat"
begin

section \<open>The Luau compatibility layer for the Lua 5.4 API\<close>

text \<open>
  The development embeds the shims of \<^verbatim>\<open>LuauCompat.hpp\<close> (the header that makes Luau
  answer to the Lua 5.4 C API): the stack adapter \<^verbatim>\<open>lua_rotate\<close>, the 64-bit integer
  adapter, the user-value emulation, the loader, the debug-frame adapter and the userdata
  tag registry. The shims are written against primitives of the virtual machine
  (\<^verbatim>\<open>lua_pushvalue\<close>, \<^verbatim>\<open>lua_remove\<close>, \<^verbatim>\<open>lua_insert\<close>, ...) that live in the VM's own
  library; those primitives are modelled here by their documented effect on the value stack,
  and an index the VM does not accept makes the primitive return \<open>None\<close>.
\<close>

subsection \<open>Machine types\<close>

type_synonym c_int = "32 word"
type_synonym int64_t = "64 word"
type_synonym addr = nat

text \<open>
  A \<^verbatim>\<open>double\<close> is kept by its exact value: \<open>Finite m e\<close> stands for \<open>m * 2 ^ e\<close>, a
  binary64 value when \<open>\<bar>m\<bar> < 2 ^ 53\<close> and \<open>- 1074 \<le> e \<le> 971\<close>. The two zeros are one
  value here; no operation of the layer tells them apart.
\<close>

datatype lua_Number = Finite int int | Infinite bool | NaN

datatype Value =
    TNil
  | TBoolean bool
  | TNumber lua_Number
  | TString string
  | TTable addr
  | TFunction addr
  | TUserdata addr
  | TThread addr

datatype lua_Type =
    LUA_TNIL | LUA_TBOOLEAN | LUA_TNUMBER | LUA_TSTRING
  | LUA_TTABLE | LUA_TFUNCTION | LUA_TUSERDATA | LUA_TTHREAD

type_synonym DestructorFn = nat

datatype udata_alloc = Plain nat | Tagged nat int

text \<open>
  The state of one VM: the value stack of the running function (index 1 is the head of the
  list), the heap of tables (only integer keys are used by the layer), the environment table
  associated with a userdata, the userdata blocks with the kind of allocation that made them,
  the destructor registered per tag, the next free heap address and the depth of the call
  stack.
\<close>

record lua_State =
  stack :: "Value list"
  tables :: "addr \<rightharpoonup> (int \<rightharpoonup> Value)"
  fenv :: "addr \<rightharpoonup> addr"
  udata :: "addr \<rightharpoonup> udata_alloc"
  udatagc :: "int \<rightharpoonup> DestructorFn"
  next_addr :: addr
  ci_depth :: int

subsection \<open>Primitives of the VM\<close>

definition LUA_REGISTRYINDEX :: int where
  "LUA_REGISTRYINDEX = - 10000"

definition lua_ispseudo :: "int \<Rightarrow> bool" where
  "lua_ispseudo i = (i \<le> LUA_REGISTRYINDEX)"

definition lua_gettop :: "lua_State \<Rightarrow> int" where
  "lua_gettop L = int (length (stack L))"

definition lua_absindex :: "lua_State \<Rightarrow> int \<Rightarrow> int" where
  "lua_absindex L idx =
     (if idx > 0 \<or> lua_ispseudo idx then idx else lua_gettop L + idx + 1)"

text \<open>
  The position in the list of a stack index: positive indices count from the base,
  negative ones from the top. Zero, an index beyond the top and the pseudo-indices have no
  position.
\<close>

definition index2addr :: "lua_State \<Rightarrow> int \<Rightarrow> nat option" where
  "index2addr L idx =
     (if 1 \<le> idx \<and> idx \<le> lua_gettop L then Some (nat (idx - 1))
      else if idx < 0 \<and> \<not> lua_ispseudo idx \<and> - idx \<le> lua_gettop L
        then Some (nat (lua_gettop L + idx))
      else None)"

definition lua_pushvalue :: "lua_State \<Rightarrow> int \<Rightarrow> lua_State option" where
  "lua_pushvalue L idx =
     (case index2addr L idx of
        None \<Rightarrow> None
      | Some p \<Rightarrow> Some (L\<lparr>stack := stack L @ [stack L ! p]\<rparr>))"

definition lua_remove :: "lua_State \<Rightarrow> int \<Rightarrow> lua_State option" where
  "lua_remove L idx =
     (case index2addr L idx of
        None \<Rightarrow> None
      | Some p \<Rightarrow> Some (L\<lparr>stack := take p (stack L) @ drop (Suc p) (stack L)\<rparr>))"

definition lua_insert :: "lua_State \<Rightarrow> int \<Rightarrow> lua_State option" where
  "lua_insert L idx =
     (case index2addr L idx of
        None \<Rightarrow> None
      | Some p \<Rightarrow>
          Some (L\<lparr>stack := take p (butlast (stack L)) @ [last (stack L)]
                              @ drop p (butlast (stack L))\<rparr>))"

definition lua_pop :: "lua_State \<Rightarrow> nat \<Rightarrow> lua_State option" where
  "lua_pop L n =
     (if n \<le> length (stack L)
      then Some (L\<lparr>stack := take (length (stack L) - n) (stack L)\<rparr>)
      else None)"

subsection \<open>The stack adapter: \<^verbatim>\<open>lua_rotate\<close>\<close>

text \<open>
  The two \<^verbatim>\<open>for (int i = 0; i < n; i++)\<close> loops of \<^verbatim>\<open>lua_rotate\<close>. The first is the
  branch \<^verbatim>\<open>n > 0\<close>, commented "Rotate elements up" in the source, the second the branch
  \<^verbatim>\<open>n < 0\<close>, "Rotate elements down".
\<close>

function lua_rotate_loop_pos :: "int \<Rightarrow> int \<Rightarrow> int \<Rightarrow> int \<Rightarrow> lua_State \<Rightarrow> lua_State option" where
  "lua_rotate_loop_pos idx t i n L =
     (if i < n then
        do {
          L1 \<leftarrow> lua_pushvalue L idx;
          L2 \<leftarrow> lua_remove L1 idx;
          L3 \<leftarrow> lua_insert L2 t;
          lua_rotate_loop_pos idx t (i + 1) n L3
        }
      else Some L)"
  by pat_completeness auto
termination
  by (relation "measure (\<lambda>(idx, t, i, n, L). nat (n - i))") auto

function lua_rotate_loop_neg :: "int \<Rightarrow> int \<Rightarrow> int \<Rightarrow> int \<Rightarrow> lua_State \<Rightarrow> lua_State option" where
  "lua_rotate_loop_neg idx t i n L =
     (if i < n then
        do {
          L1 \<leftarrow> lua_pushvalue L t;
          L2 \<leftarrow> lua_remove L1 t;
          L3 \<leftarrow> lua_insert L2 idx;
          lua_rotate_loop_neg idx t (i + 1) n L3
        }
      else Some L)"
  by pat_completeness auto
termination
  by (relation "measure (\<lambda>(idx, t, i, n, L). nat (n - i))") auto

text \<open>
  The rotation count is a C \<^verbatim>\<open>int\<close>. For the count \<open>- 2 ^ 31\<close> the negation
  \<^verbatim>\<open>n = -n\<close> of the second branch overflows, and the language defines no behaviour for
  that: the function has no result there (\<open>None\<close>). For every other negative count the
  negation is exact. The local \<^verbatim>\<open>m\<close> that the source computes is never read and is
  left out.
\<close>

definition lua_rotate :: "lua_State \<Rightarrow> int \<Rightarrow> c_int \<Rightarrow> lua_State option" where
  "lua_rotate L idx n =
     (let t = lua_gettop L;
          idx' = lua_absindex L idx
      in if 0 < sint n then lua_rotate_loop_pos idx' t 0 (sint n) L
         else if sint n < 0 then
           (if sint n = - (2 ^ 31) then None
            else lua_rotate_loop_neg idx' t 0 (sint (- n)) L)
         else Some L)"

declare lua_rotate_loop_pos.simps [simp del] lua_rotate_loop_neg.simps [simp del]

text \<open>
  One pass of the second loop on the list of values from \<open>idx\<close> to the top: the last value
  comes first. It undoes \<^const>\<open>rotate1\<close>, which is one pass of the first loop.
\<close>

definition rotate_back1 :: "'a list \<Rightarrow> 'a list" where
  "rotate_back1 xs = (if xs = [] then [] else last xs # butlast xs)"

text \<open>
  The rotation of the original contract, after the specification's words: the sub-stack from
  \<open>idx\<close> to the top is rotated by \<open>n\<close> positions, toward the top for a positive \<open>n\<close>
  (the last \<open>n\<close> values wrap around to \<open>idx\<close>), toward the base for a negative one (the
  first \<open>- n\<close> values wrap around to the top). A count larger than the sub-stack is not
  accepted.
\<close>

definition native_rotate :: "lua_State \<Rightarrow> int \<Rightarrow> int \<Rightarrow> lua_State option" where
  "native_rotate L idx n =
     (case index2addr L idx of
        None \<Rightarrow> None
      | Some p \<Rightarrow>
          let seg = drop p (stack L);
              k = int (length seg)
          in if \<bar>n\<bar> > k then None
             else if n \<ge> 0
               then Some (L\<lparr>stack := take p (stack L)
                            @ drop (nat (k - n)) seg @ take (nat (k - n)) seg\<rparr>)
               else Some (L\<lparr>stack := take p (stack L)
                            @ drop (nat (- n)) seg @ take (nat (- n)) seg\<rparr>))"

text \<open>A state with nothing on the stack and nothing on the heap, for concrete runs.\<close>

definition lua_newstate :: lua_State where
  "lua_newstate = \<lparr>stack = [], tables = Map.empty, fenv = Map.empty, udata = Map.empty,
                    udatagc = Map.empty, next_addr = 0, ci_depth = 0\<rparr>"

subsection \<open>The numeric adapter: 64-bit integers through \<^verbatim>\<open>double\<close>\<close>

definition is_double :: "lua_Number \<Rightarrow> bool" where
  "is_double d =
     (case d of
        Finite m e \<Rightarrow> \<bar>m\<bar> < 2 ^ 53 \<and> - 1074 \<le> e \<and> e \<le> 971
      | _ \<Rightarrow> True)"

text \<open>
  \<^verbatim>\<open>static_cast<double>(n)\<close> for a 64-bit integer: the nearest binary64 value, a tie
  going to the even significand. \<open>sh\<close> is the number of low bits that do not fit the 53-bit
  significand.
\<close>

definition static_cast_double :: "int64_t \<Rightarrow> lua_Number" where
  "static_cast_double v =
     (let x = sint v;
          a = \<bar>x\<bar>;
          sh = nat (bitlen a - 53);
          q = a div 2 ^ sh;
          r = a mod 2 ^ sh;
          q' = (if 2 * r > 2 ^ sh \<or> (2 * r = 2 ^ sh \<and> odd q) then q + 1 else q)
      in if q' = 2 ^ 53 then Finite (sgn x * 2 ^ 52) (int sh + 1)
         else Finite (sgn x * q') (int sh))"

text \<open>The integer part of a finite number, rounded toward zero.\<close>

definition truncate_toward_zero :: "int \<Rightarrow> int \<Rightarrow> int" where
  "truncate_toward_zero m e =
     (if e \<ge> 0 then m * 2 ^ nat e else sgn m * (\<bar>m\<bar> div 2 ^ nat (- e)))"

text \<open>
  \<^verbatim>\<open>static_cast<int64_t>(d)\<close>: truncation toward zero. Outside the range of
  \<^verbatim>\<open>int64_t\<close>, and for an infinity or a NaN, the conversion instruction of x86-64, the
  platform of the layer, yields the "integer indefinite" value \<open>- 2 ^ 63\<close>.
\<close>

definition static_cast_int64 :: "lua_Number \<Rightarrow> int64_t" where
  "static_cast_int64 d =
     (case d of
        Finite m e \<Rightarrow>
          (let t = truncate_toward_zero m e
           in if - (2 ^ 63) \<le> t \<and> t < 2 ^ 63 then word_of_int t else word_of_int (- (2 ^ 63)))
      | _ \<Rightarrow> word_of_int (- (2 ^ 63)))"

text \<open>The comparison \<^verbatim>\<open>==\<close> of two doubles: by value, and a NaN equals nothing.\<close>

definition double_eq :: "lua_Number \<Rightarrow> lua_Number \<Rightarrow> bool" where
  "double_eq a b =
     (case (a, b) of
        (Finite m e, Finite m' e') \<Rightarrow>
          (let l = min e e' in m * 2 ^ nat (e - l) = m' * 2 ^ nat (e' - l))
      | (Infinite s, Infinite s') \<Rightarrow> s = s'
      | _ \<Rightarrow> False)"

text \<open>
  The integer that a number equals, for a finite number without a fractional part.
\<close>

definition integer_value :: "lua_Number \<Rightarrow> int option" where
  "integer_value d =
     (case d of
        Finite m e \<Rightarrow>
          (if e \<ge> 0 then Some (m * 2 ^ nat e)
           else if 2 ^ nat (- e) dvd m then Some (m div 2 ^ nat (- e))
           else None)
      | _ \<Rightarrow> None)"

text \<open>
  The VM's number queries. A string that reads as a number counts as a number for both;
  the VM's string conversion is the parameter \<open>str2d\<close>. \<^verbatim>\<open>lua_tonumber\<close> gives 0 for
  every other value.
\<close>

definition lua_pushnumber :: "lua_State \<Rightarrow> lua_Number \<Rightarrow> lua_State" where
  "lua_pushnumber L d = L\<lparr>stack := stack L @ [TNumber d]\<rparr>"

fun tonumber :: "(string \<Rightarrow> lua_Number option) \<Rightarrow> Value \<Rightarrow> lua_Number option" where
  "tonumber str2d (TNumber d) = Some d"
| "tonumber str2d (TString s) = str2d s"
| "tonumber str2d v = None"

definition lua_isnumber :: "(string \<Rightarrow> lua_Number option) \<Rightarrow> lua_State \<Rightarrow> int \<Rightarrow> bool option" where
  "lua_isnumber str2d L idx =
     (case index2addr L idx of
        None \<Rightarrow> None
      | Some p \<Rightarrow> Some (tonumber str2d (stack L ! p) \<noteq> None))"

definition lua_tonumber :: "(string \<Rightarrow> lua_Number option) \<Rightarrow> lua_State \<Rightarrow> int \<Rightarrow> lua_Number option" where
  "lua_tonumber str2d L idx =
     (case index2addr L idx of
        None \<Rightarrow> None
      | Some p \<Rightarrow>
          (case tonumber str2d (stack L ! p) of
             None \<Rightarrow> Some (Finite 0 0)
           | Some d \<Rightarrow> Some d))"

definition lua_isinteger :: "(string \<Rightarrow> lua_Number option) \<Rightarrow> lua_State \<Rightarrow> int \<Rightarrow> int option" where
  "lua_isinteger str2d L idx =
     do {
       isnum \<leftarrow> lua_isnumber str2d L idx;
       if \<not> isnum then Some 0
       else do {
         n \<leftarrow> lua_tonumber str2d L idx;
         Some (if double_eq n (static_cast_double (static_cast_int64 n)) then 1 else 0)
       }
     }"

definition lua_pushinteger_64 :: "lua_State \<Rightarrow> int64_t \<Rightarrow> lua_State" where
  "lua_pushinteger_64 L n = lua_pushnumber L (static_cast_double n)"

definition lua_tointeger_64 :: "(string \<Rightarrow> lua_Number option) \<Rightarrow> lua_State \<Rightarrow> int \<Rightarrow> int64_t option" where
  "lua_tointeger_64 str2d L idx =
     do { d \<leftarrow> lua_tonumber str2d L idx; Some (static_cast_int64 d) }"

subsection \<open>User values through the environment table of a userdata\<close>

text \<open>
  Modelled from the spec: the VM's environment association. \<^verbatim>\<open>lua_getfenv\<close> pushes the
  auxiliary table associated with the userdata at the index, or nil when the userdata has
  none; \<^verbatim>\<open>lua_setfenv\<close> pops a table and associates it with the userdata at the index.
  The association of functions and threads is not part of the model.
\<close>

fun type_of :: "Value \<Rightarrow> lua_Type" where
  "type_of TNil = LUA_TNIL"
| "type_of (TBoolean b) = LUA_TBOOLEAN"
| "type_of (TNumber d) = LUA_TNUMBER"
| "type_of (TString s) = LUA_TSTRING"
| "type_of (TTable a) = LUA_TTABLE"
| "type_of (TFunction a) = LUA_TFUNCTION"
| "type_of (TUserdata a) = LUA_TUSERDATA"
| "type_of (TThread a) = LUA_TTHREAD"

definition lua_type :: "lua_State \<Rightarrow> int \<Rightarrow> lua_Type option" where
  "lua_type L idx =
     (case index2addr L idx of None \<Rightarrow> None | Some p \<Rightarrow> Some (type_of (stack L ! p)))"

definition lua_isnil :: "lua_State \<Rightarrow> int \<Rightarrow> bool option" where
  "lua_isnil L idx = do { ty \<leftarrow> lua_type L idx; Some (ty = LUA_TNIL) }"

definition lua_getfenv :: "lua_State \<Rightarrow> int \<Rightarrow> lua_State option" where
  "lua_getfenv L idx =
     (case index2addr L idx of
        None \<Rightarrow> None
      | Some p \<Rightarrow>
          (case stack L ! p of
             TUserdata u \<Rightarrow>
               (case fenv L u of
                  None \<Rightarrow> Some (L\<lparr>stack := stack L @ [TNil]\<rparr>)
                | Some e \<Rightarrow> Some (L\<lparr>stack := stack L @ [TTable e]\<rparr>))
           | TFunction f \<Rightarrow> None
           | TThread th \<Rightarrow> None
           | _ \<Rightarrow> Some (L\<lparr>stack := stack L @ [TNil]\<rparr>)))"

definition lua_setfenv :: "lua_State \<Rightarrow> int \<Rightarrow> (int \<times> lua_State) option" where
  "lua_setfenv L idx =
     (case index2addr L idx of
        None \<Rightarrow> None
      | Some p \<Rightarrow>
          (if stack L = [] then None
           else case last (stack L) of
             TTable e \<Rightarrow>
               (case stack L ! p of
                  TUserdata u \<Rightarrow>
                    Some (1, L\<lparr>stack := butlast (stack L), fenv := (fenv L)(u \<mapsto> e)\<rparr>)
                | TFunction f \<Rightarrow> None
                | TThread th \<Rightarrow> None
                | _ \<Rightarrow> Some (0, L\<lparr>stack := butlast (stack L)\<rparr>))
           | _ \<Rightarrow> None))"

definition lua_createtable :: "lua_State \<Rightarrow> int \<Rightarrow> int \<Rightarrow> lua_State" where
  "lua_createtable L narr nrec =
     L\<lparr>stack := stack L @ [TTable (next_addr L)],
       tables := (tables L)(next_addr L \<mapsto> Map.empty),
       next_addr := Suc (next_addr L)\<rparr>"

definition lua_rawgeti :: "lua_State \<Rightarrow> int \<Rightarrow> int \<Rightarrow> lua_State option" where
  "lua_rawgeti L idx n =
     (case index2addr L idx of
        None \<Rightarrow> None
      | Some p \<Rightarrow>
          (case stack L ! p of
             TTable a \<Rightarrow>
               (case tables L a of
                  None \<Rightarrow> None
                | Some t \<Rightarrow>
                    Some (L\<lparr>stack := stack L @ [case t n of None \<Rightarrow> TNil | Some v \<Rightarrow> v]\<rparr>))
           | _ \<Rightarrow> None))"

text \<open>The assignment \<open>t[n] = v\<close> of a table: assigning nil removes the key.\<close>

definition store_at :: "(int \<rightharpoonup> Value) \<Rightarrow> int \<Rightarrow> Value \<Rightarrow> (int \<rightharpoonup> Value)" where
  "store_at t n v = (if v = TNil then t(n := None) else t(n \<mapsto> v))"

definition lua_rawseti :: "lua_State \<Rightarrow> int \<Rightarrow> int \<Rightarrow> lua_State option" where
  "lua_rawseti L idx n =
     (case index2addr L idx of
        None \<Rightarrow> None
      | Some p \<Rightarrow>
          (case stack L ! p of
             TTable a \<Rightarrow>
               (case tables L a of
                  None \<Rightarrow> None
                | Some t \<Rightarrow>
                    Some (L\<lparr>stack := butlast (stack L),
                            tables := (tables L)(a \<mapsto> store_at t n (last (stack L)))\<rparr>))
           | _ \<Rightarrow> None))"

text \<open>
  The two shims. \<^verbatim>\<open>lua_getiuservalue\<close> leaves one value on the stack and returns its
  type; \<^verbatim>\<open>lua_setiuservalue\<close> takes the value from the top of the stack and returns 1.
\<close>

definition lua_getiuservalue :: "lua_State \<Rightarrow> int \<Rightarrow> int \<Rightarrow> (lua_Type \<times> lua_State) option" where
  "lua_getiuservalue L idx n =
     (let idx' = lua_absindex L idx
      in do {
        L1 \<leftarrow> lua_getfenv L idx';
        isnil \<leftarrow> lua_isnil L1 (- 1);
        if isnil then Some (LUA_TNIL, L1)
        else do {
          L2 \<leftarrow> lua_rawgeti L1 (- 1) n;
          L3 \<leftarrow> lua_remove L2 (- 2);
          ty \<leftarrow> lua_type L3 (- 1);
          Some (ty, L3)
        }
      })"

definition lua_setiuservalue :: "lua_State \<Rightarrow> int \<Rightarrow> int \<Rightarrow> (int \<times> lua_State) option" where
  "lua_setiuservalue L idx n =
     (let idx' = lua_absindex L idx
      in do {
        L1 \<leftarrow> lua_getfenv L idx';
        isnil \<leftarrow> lua_isnil L1 (- 1);
        L2 \<leftarrow> (if isnil then
                 do {
                   La \<leftarrow> lua_pop L1 1;
                   Lb \<leftarrow> lua_pushvalue (lua_createtable La 4 0) (- 1);
                   r \<leftarrow> lua_setfenv Lb idx';
                   Some (snd r)
                 }
               else Some L1);
        L3 \<leftarrow> lua_pushvalue L2 (- 2);
        L4 \<leftarrow> lua_rawseti L3 (- 2) n;
        L5 \<leftarrow> lua_pop L4 2;
        Some (1, L5)
      })"

subsection \<open>The loader\<close>

text \<open>
  The bytecode compiler and the VM's bytecode loader are parameters: \<open>compile\<close> maps the
  source text to the compiler's output buffer, \<open>luau_load\<close> takes the state, the chunk name,
  the bytecode and the environment index. A \<^verbatim>\<open>const char*\<close> argument is the list of bytes
  at the pointer; \<open>c_str\<close> is what a reader of a C string sees of it.
\<close>

definition LUA_ERRSYNTAX :: int where
  "LUA_ERRSYNTAX = 3"

definition c_str :: "string \<Rightarrow> string" where
  "c_str bs = takeWhile (\<lambda>c. c \<noteq> CHR 0x00) bs"

definition strlen :: "string \<Rightarrow> nat" where
  "strlen bs = length (c_str bs)"

definition lua_pushstring :: "lua_State \<Rightarrow> string \<Rightarrow> lua_State" where
  "lua_pushstring L s = L\<lparr>stack := stack L @ [TString (c_str s)]\<rparr>"

definition luaL_loadstring ::
  "(string \<Rightarrow> string) \<Rightarrow> (lua_State \<Rightarrow> string \<Rightarrow> string \<Rightarrow> int \<Rightarrow> int \<times> lua_State)
     \<Rightarrow> lua_State \<Rightarrow> string \<Rightarrow> int \<times> lua_State" where
  "luaL_loadstring compile luau_load L s =
     (let len = strlen s;
          bytecode = compile (take len s)
      in if bytecode = [] \<or> hd bytecode = CHR 0x00 then
           (if length bytecode > 1
            then (LUA_ERRSYNTAX, lua_pushstring L (drop 1 bytecode))
            else (LUA_ERRSYNTAX, lua_pushstring L ''compilation failed''))
         else luau_load L ''chunk'' bytecode 0)"

definition luaL_loadbuffer ::
  "(string \<Rightarrow> string) \<Rightarrow> (lua_State \<Rightarrow> string \<Rightarrow> string \<Rightarrow> int \<Rightarrow> int \<times> lua_State)
     \<Rightarrow> lua_State \<Rightarrow> string \<Rightarrow> nat \<Rightarrow> string \<Rightarrow> int \<times> lua_State" where
  "luaL_loadbuffer compile luau_load L buff sz chunkname =
     (let bytecode = compile (take sz buff)
      in if bytecode = [] \<or> hd bytecode = CHR 0x00 then
           (if length bytecode > 1
            then (LUA_ERRSYNTAX, lua_pushstring L (drop 1 bytecode))
            else (LUA_ERRSYNTAX, lua_pushstring L ''compilation failed''))
         else luau_load L chunkname bytecode 0)"

text \<open>
  Sample collaborators for concrete runs: a compiler that rejects every source with the
  diagnostic \<open>:1: syntax error\<close>, one that accepts every source (its output starts with a
  bytecode version byte), and a loader that pushes a closure and reports success.
\<close>

definition sample_compile_error :: "string \<Rightarrow> string" where
  "sample_compile_error src = CHR 0x00 # '':1: syntax error''"

definition sample_compile_ok :: "string \<Rightarrow> string" where
  "sample_compile_ok src = CHR 0x06 # src"

definition sample_luau_load :: "lua_State \<Rightarrow> string \<Rightarrow> string \<Rightarrow> int \<Rightarrow> int \<times> lua_State" where
  "sample_luau_load L chunkname bytecode env = (0, L\<lparr>stack := stack L @ [TFunction 0]\<rparr>)"

subsection \<open>The debug-frame adapter\<close>

text \<open>
  \<^verbatim>\<open>s_current_debug_level\<close> is a \<^verbatim>\<open>thread_local\<close> variable: one cell per thread, 0 at
  first. A null \<^verbatim>\<open>const char*\<close> field of \<^verbatim>\<open>lua_Debug\<close> is \<open>None\<close>. The VM's
  \<^verbatim>\<open>lua_stackdepth\<close> reads the depth of the call stack; its four-argument
  \<^verbatim>\<open>lua_getinfo\<close> and its \<^verbatim>\<open>lua_getlocal\<close> are parameters of the wrappers.
\<close>

type_synonym thread_id = nat

record lua_Debug =
  name :: "string option"
  what :: "string option"
  source :: "string option"
  short_src :: "string option"
  linedefined :: int
  currentline :: int

definition s_current_debug_level_init :: "thread_id \<Rightarrow> int" where
  "s_current_debug_level_init = (\<lambda>th. 0)"

definition lua_stackdepth :: "lua_State \<Rightarrow> int" where
  "lua_stackdepth L = ci_depth L"

definition lua_getstack ::
  "(thread_id \<Rightarrow> int) \<Rightarrow> thread_id \<Rightarrow> lua_State \<Rightarrow> int \<Rightarrow> lua_Debug
     \<Rightarrow> int \<times> (thread_id \<Rightarrow> int) \<times> lua_Debug" where
  "lua_getstack cur th L level ar =
     (let depth = lua_stackdepth L
      in if level < 0 \<or> level \<ge> depth then (0, cur, ar)
         else (1, cur(th := level),
               ar\<lparr>name := None, what := None, source := None, short_src := None,
                  linedefined := - 1, currentline := - 1\<rparr>))"

definition luau_getinfo_3arg ::
  "(lua_State \<Rightarrow> int \<Rightarrow> string \<Rightarrow> lua_Debug \<Rightarrow> 'r)
     \<Rightarrow> (thread_id \<Rightarrow> int) \<Rightarrow> thread_id \<Rightarrow> lua_State \<Rightarrow> string \<Rightarrow> lua_Debug \<Rightarrow> 'r" where
  "luau_getinfo_3arg lua_getinfo cur th L wh ar = lua_getinfo L (cur th) wh ar"

definition luau_getlocal_3arg ::
  "(lua_State \<Rightarrow> int \<Rightarrow> int \<Rightarrow> 'r)
     \<Rightarrow> (thread_id \<Rightarrow> int) \<Rightarrow> thread_id \<Rightarrow> lua_State \<Rightarrow> lua_Debug \<Rightarrow> int \<Rightarrow> 'r" where
  "luau_getlocal_3arg lua_getlocal cur th L ar n = lua_getlocal L (cur th) n"

text \<open>A sample VM query for concrete runs: it reports the level it is asked about.\<close>

definition sample_lua_getinfo :: "lua_State \<Rightarrow> int \<Rightarrow> string \<Rightarrow> lua_Debug \<Rightarrow> int" where
  "sample_lua_getinfo L level wh ar = level"

text \<open>
  A run of capture calls, each with the thread that makes it and the state it is made on.
\<close>

fun getstack_calls ::
  "(thread_id \<Rightarrow> int) \<Rightarrow> (thread_id \<times> lua_State \<times> int \<times> lua_Debug) list
     \<Rightarrow> (thread_id \<Rightarrow> int)" where
  "getstack_calls cur [] = cur"
| "getstack_calls cur ((th, L, level, ar) # cs) =
     getstack_calls (fst (snd (lua_getstack cur th L level ar))) cs"

text \<open>
  The level a thread's next query is expected to use after such a run: the level of the
  thread's last call that was in range, and the starting value \<open>d\<close> when it had none.
\<close>

fun last_captured ::
  "thread_id \<Rightarrow> int \<Rightarrow> (thread_id \<times> lua_State \<times> int \<times> lua_Debug) list \<Rightarrow> int" where
  "last_captured th d [] = d"
| "last_captured th d ((th', L, level, ar) # cs) =
     last_captured th
       (if th' = th \<and> 0 \<le> level \<and> level < lua_stackdepth L then level else d) cs"

subsection \<open>The tag registry and tagged userdata\<close>

text \<open>
  The function-local statics of \<^verbatim>\<open>get_or_create_tag\<close>. The lock makes every call one
  step on this state; \<^verbatim>\<open>next_tag\<close> is a C \<^verbatim>\<open>int\<close> and its increment wraps.
\<close>

record tag_registry =
  tag_map :: "string \<rightharpoonup> c_int"
  next_tag :: c_int

definition tag_registry_init :: tag_registry where
  "tag_registry_init = \<lparr>tag_map = Map.empty, next_tag = 1\<rparr>"

definition MAX_USERDATA_TAGS :: int where
  "MAX_USERDATA_TAGS = 256"

definition get_or_create_tag :: "tag_registry \<Rightarrow> string \<Rightarrow> c_int \<times> tag_registry" where
  "get_or_create_tag R metatable_name =
     (case tag_map R metatable_name of
        Some t \<Rightarrow> (t, R)
      | None \<Rightarrow>
          (let tag = next_tag R;
               R1 = R\<lparr>next_tag := next_tag R + 1\<rparr>
           in if sint tag \<ge> MAX_USERDATA_TAGS then (0, R1)
              else (tag, R1\<lparr>tag_map := (tag_map R1)(metatable_name \<mapsto> tag)\<rparr>)))"

text \<open>A run of calls: the tags returned, in order, and the registry afterwards.\<close>

fun tag_calls :: "tag_registry \<Rightarrow> string list \<Rightarrow> c_int list \<times> tag_registry" where
  "tag_calls R [] = ([], R)"
| "tag_calls R (nm # nms) =
     (let (t, R1) = get_or_create_tag R nm;
          (ts, R2) = tag_calls R1 nms
      in (t # ts, R2))"

text \<open>
  The VM's userdata primitives. Modelled from the spec: a tagged allocation is finalized by
  the destructor registered for its tag, a plain allocation has no finalizer.
\<close>

definition lua_newuserdata :: "lua_State \<Rightarrow> nat \<Rightarrow> addr \<times> lua_State" where
  "lua_newuserdata L sz =
     (next_addr L,
      L\<lparr>stack := stack L @ [TUserdata (next_addr L)],
        udata := (udata L)(next_addr L \<mapsto> Plain sz),
        next_addr := Suc (next_addr L)\<rparr>)"

definition lua_newuserdatatagged :: "lua_State \<Rightarrow> nat \<Rightarrow> int \<Rightarrow> addr \<times> lua_State" where
  "lua_newuserdatatagged L sz tag =
     (next_addr L,
      L\<lparr>stack := stack L @ [TUserdata (next_addr L)],
        udata := (udata L)(next_addr L \<mapsto> Tagged sz tag),
        next_addr := Suc (next_addr L)\<rparr>)"

definition lua_setuserdatadtor :: "lua_State \<Rightarrow> int \<Rightarrow> DestructorFn \<Rightarrow> lua_State" where
  "lua_setuserdatadtor L tag dtor = L\<lparr>udatagc := (udatagc L)(tag \<mapsto> dtor)\<rparr>"

definition finalizer :: "lua_State \<Rightarrow> addr \<Rightarrow> DestructorFn option" where
  "finalizer L a =
     (case udata L a of
        Some (Tagged sz tag) \<Rightarrow> udatagc L tag
      | _ \<Rightarrow> None)"

definition register_destructor :: "lua_State \<Rightarrow> c_int \<Rightarrow> DestructorFn \<Rightarrow> lua_State" where
  "register_destructor L tag dtor =
     (if sint tag > 0 \<and> sint tag < MAX_USERDATA_TAGS
      then lua_setuserdatadtor L (sint tag) dtor
      else L)"

definition newuserdata_tagged :: "lua_State \<Rightarrow> nat \<Rightarrow> c_int \<Rightarrow> addr \<times> lua_State" where
  "newuserdata_tagged L sz tag =
     (if sint tag > 0 then lua_newuserdatatagged L sz (sint tag)
      else lua_newuserdata L sz)"

text \<open>Any later registrations of destructors, in order.\<close>

fun register_destructors :: "lua_State \<Rightarrow> (c_int \<times> DestructorFn) list \<Rightarrow> lua_State" where
  "register_destructors L [] = L"
| "register_destructors L ((tag, dtor) # ds) =
     register_destructors (register_destructor L tag dtor) ds"

text \<open>
  What every registry reached from the initial one satisfies, \<open>S\<close> being the names seen so
  far: the names that hold a tag are among them, the tags held lie between 1 and
  \<^verbatim>\<open>MAX_USERDATA_TAGS - 1\<close>, below the counter, and are pairwise different, and while the
  counter is below \<^verbatim>\<open>MAX_USERDATA_TAGS\<close> every name seen holds a tag.
\<close>

definition registry_inv :: "string set \<Rightarrow> tag_registry \<Rightarrow> bool" where
  "registry_inv S R \<longleftrightarrow>
     finite S \<and> dom (tag_map R) \<subseteq> S
     \<and> 1 \<le> sint (next_tag R)
     \<and> (\<forall>nm t. tag_map R nm = Some t \<longrightarrow>
           1 \<le> sint t \<and> sint t < MAX_USERDATA_TAGS \<and> sint t < sint (next_tag R))
     \<and> inj_on (tag_map R) (dom (tag_map R))
     \<and> int (card (dom (tag_map R))) = min (sint (next_tag R) - 1) (MAX_USERDATA_TAGS - 1)
     \<and> (sint (next_tag R) < MAX_USERDATA_TAGS \<longrightarrow> S \<subseteq> dom (tag_map R))"

text \<open>Sample type names for concrete runs, pairwise different.\<close>

definition sample_type_name :: "nat \<Rightarrow> string" where
  "sample_type_name i = replicate (Suc i) CHR ''T''"

section \<open>Properties\<close>

subsection \<open>The stack adapter\<close>

lemma rotate1_rotate_back1: "rotate1 (rotate_back1 xs) = xs"
  by (simp add: rotate_back1_def)

lemma rotate_back1_rotate1: "rotate_back1 (rotate1 xs) = xs"
  by (cases xs) (simp_all add: rotate_back1_def)

lemma length_rotate_back1: "length (rotate_back1 xs) = length xs"
  by (simp add: rotate_back1_def)

lemma index2addr_bound: "index2addr L idx = Some p \<Longrightarrow> p < length (stack L)"
  by (auto simp: index2addr_def lua_gettop_def split: if_splits)

lemma index2addr_absindex:
  "index2addr L idx = Some p \<Longrightarrow> lua_absindex L idx = int p + 1"
  by (auto simp: index2addr_def lua_absindex_def lua_gettop_def split: if_splits)

lemma index2addr_pos:
  "p < length (stack L) \<Longrightarrow> index2addr L (int p + 1) = Some p"
  by (simp add: index2addr_def lua_gettop_def)

lemma index2addr_top:
  "stack L \<noteq> [] \<Longrightarrow> index2addr L (lua_gettop L) = Some (length (stack L) - 1)"
  by (cases "stack L") (auto simp add: index2addr_def lua_gettop_def)

lemma lua_rotate_pass_pos:
  assumes "p < length (stack L)"
  shows "do { L1 \<leftarrow> lua_pushvalue L (int p + 1);
              L2 \<leftarrow> lua_remove L1 (int p + 1);
              lua_insert L2 (lua_gettop L) }
         = Some (L\<lparr>stack := take p (stack L) @ rotate1 (drop p (stack L))\<rparr>)"
proof -
  obtain x xs where d: "drop p (stack L) = x # xs"
    using assms by (cases "drop p (stack L)") auto
  have x: "stack L ! p = x"
    using d assms by (metis nth_via_drop)
  have xs: "drop (Suc p) (stack L) = xs"
    using d by (metis drop_Suc list.sel(3) tl_drop)
  have len: "length (stack L) = p + Suc (length xs)"
    using d assms by (metis add_diff_cancel_left' le_add_diff_inverse length_Cons length_drop less_imp_le_nat)
  have 1: "lua_pushvalue L (int p + 1) = Some (L\<lparr>stack := stack L @ [x]\<rparr>)"
    using assms by (simp add: lua_pushvalue_def index2addr_pos x)
  have 2: "lua_remove (L\<lparr>stack := stack L @ [x]\<rparr>) (int p + 1)
             = Some (L\<lparr>stack := take p (stack L) @ xs @ [x]\<rparr>)"
    using assms by (simp add: lua_remove_def index2addr_pos xs)
  have 3: "lua_insert (L\<lparr>stack := take p (stack L) @ xs @ [x]\<rparr>) (lua_gettop L)
             = Some (L\<lparr>stack := take p (stack L) @ xs @ [x]\<rparr>)"
    using assms len
    by (simp add: lua_insert_def index2addr_def lua_gettop_def butlast_append)
  show ?thesis
    by (simp add: 1 2 3 d)
qed

lemma lua_rotate_pass_neg:
  assumes "p < length (stack L)"
  shows "do { L1 \<leftarrow> lua_pushvalue L (lua_gettop L);
              L2 \<leftarrow> lua_remove L1 (lua_gettop L);
              lua_insert L2 (int p + 1) }
         = Some (L\<lparr>stack := take p (stack L) @ rotate_back1 (drop p (stack L))\<rparr>)"
proof -
  have ne: "stack L \<noteq> []" using assms by auto
  have dne: "drop p (stack L) \<noteq> []" using assms by simp
  have lst: "stack L ! (length (stack L) - 1) = last (stack L)"
    using ne by (simp add: last_conv_nth)
  have 1: "lua_pushvalue L (lua_gettop L) = Some (L\<lparr>stack := stack L @ [last (stack L)]\<rparr>)"
    using ne by (simp add: lua_pushvalue_def index2addr_top last_conv_nth)
  have idx: "index2addr (L\<lparr>stack := stack L @ [last (stack L)]\<rparr>) (lua_gettop L)
               = Some (length (stack L) - 1)"
    using ne by (cases "stack L") (auto simp: index2addr_def lua_gettop_def)
  have 2: "lua_remove (L\<lparr>stack := stack L @ [last (stack L)]\<rparr>) (lua_gettop L)
             = Some (L\<lparr>stack := butlast (stack L) @ [last (stack L)]\<rparr>)"
    using ne by (simp add: lua_remove_def idx butlast_conv_take)
  have 3: "lua_insert (L\<lparr>stack := butlast (stack L) @ [last (stack L)]\<rparr>) (int p + 1)
             = Some (L\<lparr>stack := take p (butlast (stack L)) @ [last (stack L)]
                                    @ drop p (butlast (stack L))\<rparr>)"
    using assms ne by (simp add: lua_insert_def index2addr_def lua_gettop_def)
  have 4: "take p (butlast (stack L)) = take p (stack L)"
    using assms by (simp add: take_butlast)
  show ?thesis
    using dne assms by (simp add: 1 2 3 4 rotate_back1_def butlast_drop)
qed

lemma lua_rotate_loop_pos_eq:
  "p < length (stack L) \<Longrightarrow> k = nat (n - i) \<Longrightarrow>
   lua_rotate_loop_pos (int p + 1) (lua_gettop L) i n L
     = Some (L\<lparr>stack := take p (stack L) @ rotate k (drop p (stack L))\<rparr>)"
proof (induction k arbitrary: i L)
  case 0
  then show ?case by (subst lua_rotate_loop_pos.simps) simp
next
  case (Suc k)
  let ?L' = "L\<lparr>stack := take p (stack L) @ rotate1 (drop p (stack L))\<rparr>"
  have lt: "i < n" using Suc.prems by simp
  have unf: "lua_rotate_loop_pos (int p + 1) (lua_gettop L) i n L
        = do { L1 \<leftarrow> lua_pushvalue L (int p + 1);
               L2 \<leftarrow> lua_remove L1 (int p + 1);
               lua_insert L2 (lua_gettop L) }
          \<bind> lua_rotate_loop_pos (int p + 1) (lua_gettop L) (i + 1) n"
    using lt by (subst lua_rotate_loop_pos.simps) simp
  have top: "lua_gettop ?L' = lua_gettop L"
    using Suc.prems by (simp add: lua_gettop_def)
  have len: "p < length (stack ?L')" using Suc.prems by simp
  have k: "k = nat (n - (i + 1))" using Suc.prems by simp
  have "lua_rotate_loop_pos (int p + 1) (lua_gettop L) i n L
          = lua_rotate_loop_pos (int p + 1) (lua_gettop ?L') (i + 1) n ?L'"
    using Suc.prems by (simp only: unf lua_rotate_pass_pos top) simp
  also have "\<dots> = Some (?L'\<lparr>stack := take p (stack ?L') @ rotate k (drop p (stack ?L'))\<rparr>)"
    by (rule Suc.IH [OF len k])
  finally have fin: "lua_rotate_loop_pos (int p + 1) (lua_gettop L) i n L
      = Some (?L'\<lparr>stack := take p (stack ?L') @ rotate k (drop p (stack ?L'))\<rparr>)" .
  have sw: "rotate k (rotate1 (drop p (stack L))) = rotate (Suc k) (drop p (stack L))"
    by (simp add: rotate1_rotate_swap)
  show ?case
    using Suc.prems(1) by (simp add: fin sw del: rotate_Suc)
qed

lemma lua_rotate_loop_neg_eq:
  "p < length (stack L) \<Longrightarrow> k = nat (n - i) \<Longrightarrow>
   lua_rotate_loop_neg (int p + 1) (lua_gettop L) i n L
     = Some (L\<lparr>stack := take p (stack L) @ (rotate_back1 ^^ k) (drop p (stack L))\<rparr>)"
proof (induction k arbitrary: i L)
  case 0
  then show ?case by (subst lua_rotate_loop_neg.simps) simp
next
  case (Suc k)
  let ?L' = "L\<lparr>stack := take p (stack L) @ rotate_back1 (drop p (stack L))\<rparr>"
  have lt: "i < n" using Suc.prems by simp
  have unf: "lua_rotate_loop_neg (int p + 1) (lua_gettop L) i n L
        = do { L1 \<leftarrow> lua_pushvalue L (lua_gettop L);
               L2 \<leftarrow> lua_remove L1 (lua_gettop L);
               lua_insert L2 (int p + 1) }
          \<bind> lua_rotate_loop_neg (int p + 1) (lua_gettop L) (i + 1) n"
    using lt by (subst lua_rotate_loop_neg.simps) simp
  have top: "lua_gettop ?L' = lua_gettop L"
    using Suc.prems by (simp add: lua_gettop_def length_rotate_back1)
  have len: "p < length (stack ?L')" using Suc.prems by (simp add: length_rotate_back1)
  have k: "k = nat (n - (i + 1))" using Suc.prems by simp
  have "lua_rotate_loop_neg (int p + 1) (lua_gettop L) i n L
          = lua_rotate_loop_neg (int p + 1) (lua_gettop ?L') (i + 1) n ?L'"
    using Suc.prems by (simp only: unf lua_rotate_pass_neg top) simp
  also have "\<dots> = Some (?L'\<lparr>stack := take p (stack ?L') @ (rotate_back1 ^^ k) (drop p (stack ?L'))\<rparr>)"
    by (rule Suc.IH [OF len k])
  finally have fin: "lua_rotate_loop_neg (int p + 1) (lua_gettop L) i n L
      = Some (?L'\<lparr>stack := take p (stack ?L') @ (rotate_back1 ^^ k) (drop p (stack ?L'))\<rparr>)" .
  have sw: "(rotate_back1 ^^ k) (rotate_back1 (drop p (stack L)))
              = (rotate_back1 ^^ Suc k) (drop p (stack L))"
    by (simp only: funpow_Suc_right o_apply)
  show ?case
    using Suc.prems(1) by (simp add: fin sw del: funpow.simps)
qed

lemma rotate_back_rotate: "(rotate_back1 ^^ k) (rotate k xs) = xs"
proof (induction k arbitrary: xs)
  case 0
  show ?case by simp
next
  case (Suc k)
  have "(rotate_back1 ^^ Suc k) (rotate (Suc k) xs)
          = (rotate_back1 ^^ k) (rotate_back1 (rotate1 (rotate k xs)))"
    by (simp only: funpow_Suc_right o_apply rotate_Suc)
  then show ?case by (simp only: rotate_back1_rotate1 Suc.IH)
qed

lemma rotate_rotate_back: "rotate k ((rotate_back1 ^^ k) xs) = xs"
proof (induction k arbitrary: xs)
  case 0
  show ?case by simp
next
  case (Suc k)
  have "rotate (Suc k) ((rotate_back1 ^^ Suc k) xs)
          = rotate k (rotate1 (rotate_back1 ((rotate_back1 ^^ k) xs)))"
    by (simp add: rotate1_rotate_swap)
  then show ?case by (simp only: rotate1_rotate_back1 Suc.IH)
qed

lemma length_rotate_back: "length ((rotate_back1 ^^ k) xs) = length xs"
  by (induction k) (simp_all add: length_rotate_back1)

lemma lua_rotate_pos:
  assumes "index2addr L idx = Some p" and "0 < sint n"
  shows "lua_rotate L idx n
           = Some (L\<lparr>stack := take p (stack L) @ rotate (nat (sint n)) (drop p (stack L))\<rparr>)"
  using assms lua_rotate_loop_pos_eq [OF index2addr_bound [OF assms(1)], of "nat (sint n)" "sint n" 0]
  by (simp add: lua_rotate_def index2addr_absindex)

lemma lua_rotate_neg:
  assumes "index2addr L idx = Some p" and "sint n < 0" and "sint n \<noteq> - (2 ^ 31)"
  shows "lua_rotate L idx n
           = Some (L\<lparr>stack := take p (stack L)
                     @ (rotate_back1 ^^ nat (sint (- n))) (drop p (stack L))\<rparr>)"
  using assms lua_rotate_loop_neg_eq [OF index2addr_bound [OF assms(1)], of "nat (sint (- n))" "sint (- n)" 0]
  by (simp add: lua_rotate_def index2addr_absindex)

lemma lua_rotate_zero: "sint n = 0 \<Longrightarrow> lua_rotate L idx n = Some L"
  by (simp add: lua_rotate_def)

lemma index2addr_stack_length:
  "length st = length (stack L) \<Longrightarrow> index2addr (L\<lparr>stack := st\<rparr>) idx = index2addr L idx"
  by (simp add: index2addr_def lua_gettop_def)

lemma sint_minus_c_int:
  fixes n :: c_int
  assumes "sint n \<noteq> - (2 ^ 31)"
  shows "sint (- n) = - sint n"
proof -
  have "- (2 ^ 31) \<le> sint n" "sint n < 2 ^ 31"
    using sint_ge [of n] sint_lt [of n] by simp_all
  then have "- (2 ^ 31) \<le> - sint n" "- sint n < 2 ^ 31"
    using assms by simp_all
  then show ?thesis
    by (simp add: sint_word_ariths signed_take_bit_int_eq_self)
qed

lemma lua_rotate_int_min: "sint n = - (2 ^ 31) \<Longrightarrow> lua_rotate L idx n = None"
  by (simp add: lua_rotate_def)

text \<open>
  Claim C6. For every stack and every valid index \<open>idx\<close>, \<^verbatim>\<open>lua_rotate(idx, n)\<close>
  followed by \<^verbatim>\<open>lua_rotate(idx, -n)\<close> restores the original arrangement, for every
  rotation count \<open>n\<close> that has a negation in the type \<^verbatim>\<open>int\<close>, that is every count but
  \<open>- 2 ^ 31\<close>; both calls return. The stack need not have three elements for this.
\<close>

theorem lua_rotate_inverse:
  assumes "index2addr L idx = Some p" and nmin: "sint n \<noteq> - (2 ^ 31)"
  shows "do { L1 \<leftarrow> lua_rotate L idx n; lua_rotate L1 idx (- n) } = Some L"
proof -
  let ?st = "stack L"
  have p: "p < length ?st" using assms(1) by (rule index2addr_bound)
  have tk: "\<And>ys. length ys = length (drop p ?st) \<Longrightarrow> take p (take p ?st @ ys) = take p ?st"
    using p by simp
  have dr: "\<And>ys. drop p (take p ?st @ ys) = ys"
    using p by simp
  have m: "sint (- n) = - sint n" using nmin by (rule sint_minus_c_int)
  have up: "sint n < 2 ^ 31" using sint_lt [of n] by simp
  consider (pos) "0 < sint n" | (zero) "sint n = 0" | (neg) "sint n < 0"
    by fastforce
  then show ?thesis
  proof cases
    case pos
    let ?L1 = "L\<lparr>stack := take p ?st @ rotate (nat (sint n)) (drop p ?st)\<rparr>"
    have i1: "index2addr ?L1 idx = Some p"
      using assms(1) p by (simp add: index2addr_stack_length)
    have 1: "lua_rotate L idx n = Some ?L1"
      using assms(1) pos by (rule lua_rotate_pos)
    have 2: "lua_rotate ?L1 idx (- n)
               = Some (?L1\<lparr>stack := take p (stack ?L1)
                     @ (rotate_back1 ^^ nat (sint (- (- n)))) (drop p (stack ?L1))\<rparr>)"
      using i1 m pos up by (intro lua_rotate_neg) simp_all
    show ?thesis
      using p by (simp add: 1 2 rotate_back_rotate)
  next
    case zero
    then have "sint (- n) = 0" using m by simp
    then show ?thesis using zero by (simp add: lua_rotate_zero)
  next
    case neg
    let ?k = "nat (sint (- n))"
    let ?L1 = "L\<lparr>stack := take p ?st @ (rotate_back1 ^^ ?k) (drop p ?st)\<rparr>"
    have i1: "index2addr ?L1 idx = Some p"
      using assms(1) p by (simp add: index2addr_stack_length length_rotate_back)
    have 1: "lua_rotate L idx n = Some ?L1"
      using assms(1) neg nmin by (rule lua_rotate_neg)
    have 2: "lua_rotate ?L1 idx (- n)
               = Some (?L1\<lparr>stack := take p (stack ?L1)
                     @ rotate ?k (drop p (stack ?L1))\<rparr>)"
      using i1 m neg by (intro lua_rotate_pos) simp_all
    show ?thesis
      using p by (simp add: 1 2 rotate_rotate_back)
  qed
qed

theorem lua_rotate_inverse_witness:
  "index2addr (lua_newstate\<lparr>stack := [TString ''a'', TString ''b'', TString ''c'']\<rparr>) (- 2) = Some 1
   \<and> sint (1 :: c_int) \<noteq> - (2 ^ 31)
   \<and> do { L1 \<leftarrow> lua_rotate (lua_newstate\<lparr>stack := [TString ''a'', TString ''b'', TString ''c'']\<rparr>) (- 2) 1;
           lua_rotate L1 (- 2) (- 1) }
       = Some (lua_newstate\<lparr>stack := [TString ''a'', TString ''b'', TString ''c'']\<rparr>)"
proof -
  have h: "index2addr (lua_newstate\<lparr>stack := [TString ''a'', TString ''b'', TString ''c'']\<rparr>) (- 2) = Some 1"
    by (simp add: index2addr_def lua_gettop_def lua_ispseudo_def LUA_REGISTRYINDEX_def)
  have k: "sint (1 :: c_int) \<noteq> - (2 ^ 31)"
    by simp
  show ?thesis
    using h k lua_rotate_inverse [OF h k] by simp
qed

lemma rotate_drop_take_le:
  "m \<le> length xs \<Longrightarrow> rotate m xs = drop m xs @ take m xs"
proof (cases "m = length xs")
  case True
  then show ?thesis by simp
next
  case False
  assume "m \<le> length xs"
  with False have "m mod length xs = m" by simp
  then show ?thesis by (simp add: rotate_drop_take)
qed

lemma rotate_back_eq_rotate:
  assumes "k \<le> length xs"
  shows "(rotate_back1 ^^ k) xs = rotate (length xs - k) xs"
proof -
  have "rotate k (rotate (length xs - k) xs) = xs"
    using assms by (simp add: rotate_rotate)
  then have "(rotate_back1 ^^ k) xs = (rotate_back1 ^^ k) (rotate k (rotate (length xs - k) xs))"
    by simp
  then show ?thesis by (simp only: rotate_back_rotate)
qed

text \<open>
  What the shim computes, against the rotation of the original contract: the same
  arrangement as a native rotation by the opposite count.
\<close>

lemma lua_rotate_native_opposite:
  assumes "index2addr L idx = Some p"
    and "\<bar>sint n\<bar> \<le> int (length (drop p (stack L)))"
    and "sint n \<noteq> - (2 ^ 31)"
  shows "lua_rotate L idx n = native_rotate L idx (- sint n)"
proof -
  let ?seg = "drop p (stack L)"
  consider (pos) "0 < sint n" | (zero) "sint n = 0" | (neg) "sint n < 0" by fastforce
  then show ?thesis
  proof cases
    case pos
    have k: "nat (sint n) \<le> length ?seg" using assms(2) pos by simp
    show ?thesis
      using pos assms(1,2) k
      by (simp add: lua_rotate_pos [OF assms(1) pos] native_rotate_def Let_def
          rotate_drop_take_le del: length_drop)
  next
    case zero
    then show ?thesis
      using assms(1) by (simp add: lua_rotate_zero native_rotate_def Let_def)
  next
    case neg
    have m: "sint (- n) = - sint n" using assms(3) by (rule sint_minus_c_int)
    have k: "nat (- sint n) \<le> length ?seg" using assms(2) neg by simp
    have r: "(rotate_back1 ^^ nat (- sint n)) ?seg
               = drop (length ?seg - nat (- sint n)) ?seg @ take (length ?seg - nat (- sint n)) ?seg"
      using k by (simp only: rotate_back_eq_rotate) (simp add: rotate_drop_take_le del: length_drop)
    have e: "nat (int (length ?seg) + sint n) = length ?seg - nat (- sint n)"
      using neg k by simp
    show ?thesis
      using neg assms(1,2)
      by (simp add: lua_rotate_neg [OF assms(1) neg assms(3)] native_rotate_def Let_def m r e del: length_drop)
  qed
qed

text \<open>
  Claim C3, at a stack of three values: rotating the whole stack by one, the shim moves
  the value at the base to the top, where the original contract moves the value at the
  top to the base.
\<close>

theorem lua_rotate_not_native:
  "lua_rotate (lua_newstate\<lparr>stack := [TString ''a'', TString ''b'', TString ''c'']\<rparr>) 1 1
     = Some (lua_newstate\<lparr>stack := [TString ''b'', TString ''c'', TString ''a'']\<rparr>)
   \<and> native_rotate (lua_newstate\<lparr>stack := [TString ''a'', TString ''b'', TString ''c'']\<rparr>) 1 1
     = Some (lua_newstate\<lparr>stack := [TString ''c'', TString ''a'', TString ''b'']\<rparr>)"
proof -
  have h: "index2addr (lua_newstate\<lparr>stack := [TString ''a'', TString ''b'', TString ''c'']\<rparr>) 1 = Some 0"
    by (simp add: index2addr_def lua_gettop_def)
  show ?thesis
    using lua_rotate_pos [OF h, of 1]
    by (simp add: native_rotate_def h)
qed

subsection \<open>The debug-frame adapter\<close>

lemma getstack_calls_cursor:
  "getstack_calls cur cs th = last_captured th (cur th) cs"
proof (induction cs arbitrary: cur)
  case Nil
  show ?case by simp
next
  case (Cons c cs)
  obtain th' L level ar where c: "c = (th', L, level, ar)"
    by (cases c) auto
  show ?case
    by (simp add: c Cons.IH lua_getstack_def Let_def)
qed

lemma last_captured_other_threads:
  "\<forall>c \<in> set cs. fst c \<noteq> th \<Longrightarrow> last_captured th d cs = d"
proof (induction cs arbitrary: d)
  case Nil
  show ?case by simp
next
  case (Cons c cs)
  obtain th' L level ar where c: "c = (th', L, level, ar)"
    by (cases c) auto
  have "th' \<noteq> th" using Cons.prems by (simp add: c)
  moreover have "last_captured th d cs = d" using Cons.prems by (intro Cons.IH) simp
  ultimately show ?case by (simp add: c)
qed

text \<open>
  Claim C9. \<^verbatim>\<open>lua_getstack\<close> returns 0 exactly when the level is negative or not below
  the stack depth. For a level in range it returns 1, stores the level in the calling
  thread's cursor (no other thread's cursor changes), and leaves a frame record whose
  name, what, source and short_src are null and whose linedefined and currentline are - 1;
  the next query of that thread, \<^verbatim>\<open>luau_getinfo_3arg\<close> or \<^verbatim>\<open>luau_getlocal_3arg\<close>, asks the VM
  about that level, whatever captures other threads make in between.
\<close>

theorem lua_getstack_capture:
  "(fst (lua_getstack cur th L level ar) = 0 \<longleftrightarrow> level < 0 \<or> level \<ge> lua_stackdepth L)
   \<and> (0 \<le> level \<and> level < lua_stackdepth L \<longrightarrow>
        (case lua_getstack cur th L level ar of
           (r, cur', ar') \<Rightarrow>
             r = 1 \<and> cur' th = level \<and> (\<forall>th'. th' \<noteq> th \<longrightarrow> cur' th' = cur th')
             \<and> name ar' = None \<and> what ar' = None \<and> source ar' = None \<and> short_src ar' = None
             \<and> linedefined ar' = - 1 \<and> currentline ar' = - 1
             \<and> (\<forall>cs. (\<forall>c \<in> set cs. fst c \<noteq> th) \<longrightarrow>
                   luau_getinfo_3arg getinfo (getstack_calls cur' cs) th L' wh ar''
                     = getinfo L' level wh ar''
                   \<and> luau_getlocal_3arg getlocal (getstack_calls cur' cs) th L' ar'' n
                     = getlocal L' level n)))"
proof -
  have ret: "fst (lua_getstack cur th L level ar) = 0 \<longleftrightarrow> level < 0 \<or> level \<ge> lua_stackdepth L"
    by (simp add: lua_getstack_def Let_def)
  have ok: "0 \<le> level \<and> level < lua_stackdepth L \<longrightarrow>
        (case lua_getstack cur th L level ar of
           (r, cur', ar') \<Rightarrow>
             r = 1 \<and> cur' th = level \<and> (\<forall>th'. th' \<noteq> th \<longrightarrow> cur' th' = cur th')
             \<and> name ar' = None \<and> what ar' = None \<and> source ar' = None \<and> short_src ar' = None
             \<and> linedefined ar' = - 1 \<and> currentline ar' = - 1
             \<and> (\<forall>cs. (\<forall>c \<in> set cs. fst c \<noteq> th) \<longrightarrow>
                   luau_getinfo_3arg getinfo (getstack_calls cur' cs) th L' wh ar''
                     = getinfo L' level wh ar''
                   \<and> luau_getlocal_3arg getlocal (getstack_calls cur' cs) th L' ar'' n
                     = getlocal L' level n))"
  proof
    assume rng: "0 \<le> level \<and> level < lua_stackdepth L"
    let ?cur' = "cur(th := level)"
    let ?ar' = "ar\<lparr>name := None, what := None, source := None, short_src := None,
                  linedefined := - 1, currentline := - 1\<rparr>"
    have res: "lua_getstack cur th L level ar = (1, ?cur', ?ar')"
      using rng by (simp add: lua_getstack_def Let_def)
    have later: "\<And>cs. \<forall>c \<in> set cs. fst c \<noteq> th \<Longrightarrow> getstack_calls ?cur' cs th = level"
      by (simp add: getstack_calls_cursor last_captured_other_threads)
    show "case lua_getstack cur th L level ar of
           (r, cur', ar') \<Rightarrow>
             r = 1 \<and> cur' th = level \<and> (\<forall>th'. th' \<noteq> th \<longrightarrow> cur' th' = cur th')
             \<and> name ar' = None \<and> what ar' = None \<and> source ar' = None \<and> short_src ar' = None
             \<and> linedefined ar' = - 1 \<and> currentline ar' = - 1
             \<and> (\<forall>cs. (\<forall>c \<in> set cs. fst c \<noteq> th) \<longrightarrow>
                   luau_getinfo_3arg getinfo (getstack_calls cur' cs) th L' wh ar''
                     = getinfo L' level wh ar''
                   \<and> luau_getlocal_3arg getlocal (getstack_calls cur' cs) th L' ar'' n
                     = getlocal L' level n)"
      by (simp add: res later luau_getinfo_3arg_def luau_getlocal_3arg_def)
  qed
  show ?thesis using ret ok by (rule conjI)
qed

theorem lua_getstack_capture_witness:
  "(0::int) \<le> 1 \<and> 1 < lua_stackdepth (lua_newstate\<lparr>ci_depth := 3\<rparr>)
   \<and> lua_getstack s_current_debug_level_init 0 (lua_newstate\<lparr>ci_depth := 3\<rparr>) 1
        \<lparr>name = Some ''f'', what = Some ''Lua'', source = Some ''=main'', short_src = Some ''main'',
         linedefined = 10, currentline = 12\<rparr>
       = (1, s_current_debug_level_init(0 := 1),
          \<lparr>name = None, what = None, source = None, short_src = None,
           linedefined = - 1, currentline = - 1\<rparr>)
   \<and> fst (lua_getstack s_current_debug_level_init 0 (lua_newstate\<lparr>ci_depth := 3\<rparr>) 3
        \<lparr>name = Some ''f'', what = Some ''Lua'', source = Some ''=main'', short_src = Some ''main'',
         linedefined = 10, currentline = 12\<rparr>) = 0"
  using lua_getstack_capture [where cur = s_current_debug_level_init and th = 0
      and L = "lua_newstate\<lparr>ci_depth := 3\<rparr>" and level = 1
      and ar = "\<lparr>name = Some ''f'', what = Some ''Lua'', source = Some ''=main'',
        short_src = Some ''main'', linedefined = 10, currentline = 12\<rparr>"
      and getinfo = sample_lua_getinfo and getlocal = "\<lambda>L lv k. lv"]
    lua_getstack_capture [where cur = s_current_debug_level_init and th = 0
      and L = "lua_newstate\<lparr>ci_depth := 3\<rparr>" and level = 3
      and ar = "\<lparr>name = Some ''f'', what = Some ''Lua'', source = Some ''=main'',
        short_src = Some ''main'', linedefined = 10, currentline = 12\<rparr>"
      and getinfo = sample_lua_getinfo and getlocal = "\<lambda>L lv k. lv"]
  by (simp add: lua_getstack_def lua_stackdepth_def lua_newstate_def Let_def)

text \<open>
  Claim C10. A call of \<^verbatim>\<open>lua_getstack\<close> with a level out of range returns 0 and changes
  neither the cursor nor the frame record. After any run of earlier calls, the query that
  follows it on the same thread therefore still asks the VM about the level of the
  thread's last capture that succeeded, and about level 0 when none did.
\<close>

theorem lua_getstack_failure_atomic:
  assumes "level < 0 \<or> level \<ge> lua_stackdepth L"
  shows "lua_getstack (getstack_calls s_current_debug_level_init cs) th L level ar
           = (0, getstack_calls s_current_debug_level_init cs, ar)
         \<and> luau_getinfo_3arg getinfo
             (fst (snd (lua_getstack (getstack_calls s_current_debug_level_init cs) th L level ar)))
             th L' wh ar'
           = getinfo L' (last_captured th 0 cs) wh ar'
         \<and> luau_getlocal_3arg getlocal
             (fst (snd (lua_getstack (getstack_calls s_current_debug_level_init cs) th L level ar)))
             th L' ar' n
           = getlocal L' (last_captured th 0 cs) n"
proof -
  have fail: "lua_getstack (getstack_calls s_current_debug_level_init cs) th L level ar
                = (0, getstack_calls s_current_debug_level_init cs, ar)"
    using assms by (auto simp: lua_getstack_def Let_def)
  have cur: "getstack_calls s_current_debug_level_init cs th = last_captured th 0 cs"
    by (simp add: getstack_calls_cursor s_current_debug_level_init_def)
  show ?thesis
    by (simp add: fail cur luau_getinfo_3arg_def luau_getlocal_3arg_def)
qed

theorem lua_getstack_failure_atomic_witness:
  "(5 < (0::int) \<or> 5 \<ge> lua_stackdepth (lua_newstate\<lparr>ci_depth := 3\<rparr>))
   \<and> last_captured 0 0
        [(0, lua_newstate\<lparr>ci_depth := 3\<rparr>, 2, \<lparr>name = None, what = None, source = None,
            short_src = None, linedefined = 0, currentline = 0\<rparr>),
         (1, lua_newstate\<lparr>ci_depth := 3\<rparr>, 1, \<lparr>name = None, what = None, source = None,
            short_src = None, linedefined = 0, currentline = 0\<rparr>)] = 2
   \<and> luau_getinfo_3arg sample_lua_getinfo
        (fst (snd (lua_getstack
           (getstack_calls s_current_debug_level_init
              [(0, lua_newstate\<lparr>ci_depth := 3\<rparr>, 2, \<lparr>name = None, what = None, source = None,
                  short_src = None, linedefined = 0, currentline = 0\<rparr>),
               (1, lua_newstate\<lparr>ci_depth := 3\<rparr>, 1, \<lparr>name = None, what = None, source = None,
                  short_src = None, linedefined = 0, currentline = 0\<rparr>)])
           0 (lua_newstate\<lparr>ci_depth := 3\<rparr>) 5
           \<lparr>name = None, what = None, source = None, short_src = None,
            linedefined = 0, currentline = 0\<rparr>)))
        0 (lua_newstate\<lparr>ci_depth := 3\<rparr>) ''n''
        \<lparr>name = None, what = None, source = None, short_src = None,
         linedefined = 0, currentline = 0\<rparr> = 2"
proof -
  have h: "5 < (0::int) \<or> 5 \<ge> lua_stackdepth (lua_newstate\<lparr>ci_depth := 3\<rparr>)"
    by (simp add: lua_stackdepth_def lua_newstate_def)
  have l: "last_captured 0 0
        [(0, lua_newstate\<lparr>ci_depth := 3\<rparr>, 2, \<lparr>name = None, what = None, source = None,
            short_src = None, linedefined = 0, currentline = 0\<rparr>),
         (1, lua_newstate\<lparr>ci_depth := 3\<rparr>, 1, \<lparr>name = None, what = None, source = None,
            short_src = None, linedefined = 0, currentline = 0\<rparr>)] = 2"
    by (simp add: lua_stackdepth_def lua_newstate_def)
  have g: "luau_getinfo_3arg sample_lua_getinfo
        (fst (snd (lua_getstack
           (getstack_calls s_current_debug_level_init
              [(0, lua_newstate\<lparr>ci_depth := 3\<rparr>, 2, \<lparr>name = None, what = None, source = None,
                  short_src = None, linedefined = 0, currentline = 0\<rparr>),
               (1, lua_newstate\<lparr>ci_depth := 3\<rparr>, 1, \<lparr>name = None, what = None, source = None,
                  short_src = None, linedefined = 0, currentline = 0\<rparr>)])
           0 (lua_newstate\<lparr>ci_depth := 3\<rparr>) 5
           \<lparr>name = None, what = None, source = None, short_src = None,
            linedefined = 0, currentline = 0\<rparr>)))
        0 (lua_newstate\<lparr>ci_depth := 3\<rparr>) ''n''
        \<lparr>name = None, what = None, source = None, short_src = None,
         linedefined = 0, currentline = 0\<rparr>
      = sample_lua_getinfo (lua_newstate\<lparr>ci_depth := 3\<rparr>)
         (last_captured 0 0
           [(0, lua_newstate\<lparr>ci_depth := 3\<rparr>, 2, \<lparr>name = None, what = None, source = None,
               short_src = None, linedefined = 0, currentline = 0\<rparr>),
            (1, lua_newstate\<lparr>ci_depth := 3\<rparr>, 1, \<lparr>name = None, what = None, source = None,
               short_src = None, linedefined = 0, currentline = 0\<rparr>)])
         ''n''
         \<lparr>name = None, what = None, source = None, short_src = None,
          linedefined = 0, currentline = 0\<rparr>"
    using lua_getstack_failure_atomic [OF h, where getinfo = sample_lua_getinfo
        and getlocal = "\<lambda>L lv k. lv" and th = 0]
    by blast
  show ?thesis
    by (simp only: h l g sample_lua_getinfo_def simp_thms)
qed

subsection \<open>The loader\<close>

text \<open>
  Claim C1 as stated fails: on a compiler output that starts with the byte 0 the loader is
  not called and the result is the syntax error carrying the rest of the buffer, and an
  output that starts with another byte is handed to the bytecode loader.
\<close>

theorem luaL_loadstring_zero_byte_is_error:
  "hd (sample_compile_error ''1+'') = CHR 0x00
   \<and> luaL_loadstring sample_compile_error sample_luau_load lua_newstate ''1+''
       = (LUA_ERRSYNTAX, lua_newstate\<lparr>stack := [TString '':1: syntax error'']\<rparr>)
   \<and> luaL_loadstring sample_compile_error sample_luau_load lua_newstate ''1+''
       \<noteq> sample_luau_load lua_newstate ''chunk'' (sample_compile_error ''1+'') 0
   \<and> hd (sample_compile_ok ''return 1+1'') \<noteq> CHR 0x00
   \<and> luaL_loadstring sample_compile_ok sample_luau_load lua_newstate ''return 1+1''
       = sample_luau_load lua_newstate ''chunk'' (sample_compile_ok ''return 1+1'') 0"
  by (simp add: luaL_loadstring_def sample_compile_error_def sample_compile_ok_def
      sample_luau_load_def lua_pushstring_def c_str_def strlen_def lua_newstate_def
      LUA_ERRSYNTAX_def Let_def)

text \<open>
  Claim C1, amended. \<^verbatim>\<open>luaL_loadstring\<close> and \<^verbatim>\<open>luaL_loadbuffer\<close> run the compiler on the
  source and look at the first byte of its output. An empty output or a first byte 0 is
  the compile-time failure: the result is \<^verbatim>\<open>LUA_ERRSYNTAX\<close>, the loader has no part in it,
  and the message pushed is the rest of the buffer read as a C string, or
  \<open>compilation failed\<close> when the buffer has at most one byte. Any other first byte leads
  into the bytecode loader with the whole buffer, and the loader's result is returned as
  it is. \<^verbatim>\<open>luaL_loadstring\<close> is \<^verbatim>\<open>luaL_loadbuffer\<close> on the C string with the chunk name
  \<open>chunk\<close>.
\<close>

theorem luaL_load_first_byte:
  "luaL_loadstring compile luau_load L s
     = luaL_loadbuffer compile luau_load L s (strlen s) ''chunk''
   \<and> (let bytecode = compile (take sz buff);
          r = luaL_loadbuffer compile luau_load L buff sz chunkname
      in (bytecode \<noteq> [] \<and> hd bytecode \<noteq> CHR 0x00 \<longrightarrow> r = luau_load L chunkname bytecode 0)
       \<and> (bytecode = [] \<or> hd bytecode = CHR 0x00 \<longrightarrow>
            fst r = LUA_ERRSYNTAX
            \<and> stack (snd r) = stack L @ [TString (if length bytecode > 1 then c_str (tl bytecode)
                                                   else ''compilation failed'')]
            \<and> r = luaL_loadbuffer compile other_load L buff sz chunkname))"
  by (auto simp: luaL_loadstring_def luaL_loadbuffer_def Let_def lua_pushstring_def c_str_def
      drop_Suc)

theorem luaL_load_first_byte_witness:
  "hd (sample_compile_error (take 2 ''1+'')) = CHR 0x00
   \<and> fst (luaL_loadbuffer sample_compile_error sample_luau_load lua_newstate ''1+'' 2 ''=test'')
       = LUA_ERRSYNTAX
   \<and> stack (snd (luaL_loadbuffer sample_compile_error sample_luau_load lua_newstate ''1+'' 2 ''=test''))
       = [TString '':1: syntax error'']
   \<and> sample_compile_ok (take 10 ''return 1+1'') \<noteq> []
   \<and> hd (sample_compile_ok (take 10 ''return 1+1'')) \<noteq> CHR 0x00
   \<and> luaL_loadbuffer sample_compile_ok sample_luau_load lua_newstate ''return 1+1'' 10 ''=test''
       = (0, lua_newstate\<lparr>stack := [TFunction 0]\<rparr>)"
  using luaL_load_first_byte [of sample_compile_error sample_luau_load lua_newstate "''1+''"
      2 "''1+''" "''=test''" sample_luau_load]
    luaL_load_first_byte [of sample_compile_ok sample_luau_load lua_newstate "''return 1+1''"
      10 "''return 1+1''" "''=test''" sample_luau_load]
  by (simp add: sample_compile_error_def sample_compile_ok_def sample_luau_load_def
      lua_newstate_def Let_def c_str_def)

subsection \<open>The tag registry\<close>

lemma sint_succ_c_int:
  fixes x :: c_int
  assumes "sint x < 2 ^ 31 - 1"
  shows "sint (x + 1) = sint x + 1"
proof -
  have "- (2 ^ 31) \<le> sint x"
    using sint_ge [of x] by simp
  then have "- (2 ^ 31) \<le> sint x + 1" "sint x + 1 < 2 ^ 31"
    using assms by simp_all
  then show ?thesis
    by (simp add: sint_word_ariths signed_take_bit_int_eq_self)
qed

lemma registry_inv_init: "registry_inv {} tag_registry_init"
  by (simp add: registry_inv_def tag_registry_init_def MAX_USERDATA_TAGS_def)

lemma get_or_create_tag_found:
  "tag_map R nm = Some t \<Longrightarrow> get_or_create_tag R nm = (t, R)"
  by (simp add: get_or_create_tag_def)

lemma get_or_create_tag_fresh:
  "tag_map R nm = None \<Longrightarrow> sint (next_tag R) < MAX_USERDATA_TAGS \<Longrightarrow>
   get_or_create_tag R nm
     = (next_tag R, R\<lparr>next_tag := next_tag R + 1, tag_map := (tag_map R)(nm \<mapsto> next_tag R)\<rparr>)"
  by (simp add: get_or_create_tag_def Let_def)

lemma get_or_create_tag_fallback:
  "tag_map R nm = None \<Longrightarrow> MAX_USERDATA_TAGS \<le> sint (next_tag R) \<Longrightarrow>
   get_or_create_tag R nm = (0, R\<lparr>next_tag := next_tag R + 1\<rparr>)"
  by (simp add: get_or_create_tag_def Let_def)

lemma registry_inv_step:
  assumes inv: "registry_inv S R" and nov: "sint (next_tag R) < 2 ^ 31 - 1"
  shows "registry_inv (insert nm S) (snd (get_or_create_tag R nm))"
proof (cases "tag_map R nm")
  case (Some t)
  then have "nm \<in> dom (tag_map R)" by auto
  then show ?thesis
    using inv by (auto simp: get_or_create_tag_found [OF Some] registry_inv_def)
next
  case None
  have fin: "finite (dom (tag_map R))"
    using inv by (auto simp: registry_inv_def intro: finite_subset)
  have nx: "sint (next_tag R + 1) = sint (next_tag R) + 1"
    using nov by (rule sint_succ_c_int)
  have notin: "nm \<notin> dom (tag_map R)" using None by auto
  show ?thesis
  proof (cases "sint (next_tag R) < MAX_USERDATA_TAGS")
    case True
    let ?R' = "R\<lparr>next_tag := next_tag R + 1, tag_map := (tag_map R)(nm \<mapsto> next_tag R)\<rparr>"
    have old: "\<And>k t. tag_map R k = Some t \<Longrightarrow>
                 1 \<le> sint t \<and> sint t < MAX_USERDATA_TAGS \<and> sint t < sint (next_tag R)"
      using inv by (simp add: registry_inv_def)
    have 1: "finite (insert nm S)" "dom (tag_map ?R') \<subseteq> insert nm S"
      using inv by (auto simp: registry_inv_def)
    have 2: "1 \<le> sint (next_tag ?R')"
      using inv by (simp add: nx registry_inv_def)
    have 3: "\<forall>k t. tag_map ?R' k = Some t \<longrightarrow>
               1 \<le> sint t \<and> sint t < MAX_USERDATA_TAGS \<and> sint t < sint (next_tag ?R')"
      using inv True old by (auto simp: nx registry_inv_def dest!: old)
    have fresh: "\<And>k. k \<in> dom (tag_map R) \<Longrightarrow> tag_map R k \<noteq> Some (next_tag R)"
      using old by fastforce
    have 4: "inj_on (tag_map ?R') (dom (tag_map ?R'))"
    proof (rule inj_onI)
      fix a b
      assume a: "a \<in> dom (tag_map ?R')" and b: "b \<in> dom (tag_map ?R')"
        and eq: "tag_map ?R' a = tag_map ?R' b"
      have injR: "inj_on (tag_map R) (dom (tag_map R))"
        using inv by (simp add: registry_inv_def)
      show "a = b"
      proof (cases "a = nm")
        case an: True
        show ?thesis
        proof (cases "b = nm")
          case True
          with an show ?thesis by simp
        next
          case False
          then have "b \<in> dom (tag_map R)" using b by auto
          from fresh [OF this] eq an False show ?thesis by simp
        qed
      next
        case an: False
        then have ad: "a \<in> dom (tag_map R)" using a by auto
        show ?thesis
        proof (cases "b = nm")
          case True
          from fresh [OF ad] eq an True show ?thesis by simp
        next
          case False
          then have "b \<in> dom (tag_map R)" using b by auto
          with ad eq an False injR show ?thesis by (auto dest: inj_onD)
        qed
      qed
    qed
    have "card (dom (tag_map ?R')) = Suc (card (dom (tag_map R)))"
      using fin notin by simp
    then have 5: "int (card (dom (tag_map ?R')))
                    = min (sint (next_tag ?R') - 1) (MAX_USERDATA_TAGS - 1)"
      using inv True by (simp add: nx registry_inv_def)
    have 6: "sint (next_tag ?R') < MAX_USERDATA_TAGS \<longrightarrow> insert nm S \<subseteq> dom (tag_map ?R')"
      using inv True by (auto simp: registry_inv_def)
    show ?thesis
      unfolding get_or_create_tag_fresh [OF None True] snd_conv registry_inv_def
      using 1 2 3 4 5 6 by blast
  next
    case False
    then have ge: "MAX_USERDATA_TAGS \<le> sint (next_tag R)" by simp
    have old: "\<And>k t. tag_map R k = Some t \<Longrightarrow> sint t < sint (next_tag R) + 1"
      using inv by (fastforce simp: registry_inv_def)
    show ?thesis
      using inv ge
      by (auto simp: get_or_create_tag_fallback [OF None ge] registry_inv_def nx dest: old)
  qed
qed

lemma tag_calls_Cons_fst:
  "fst (tag_calls R (nm # nms))
     = fst (get_or_create_tag R nm) # fst (tag_calls (snd (get_or_create_tag R nm)) nms)"
  by (simp add: split_def Let_def)

lemma tag_calls_Cons_snd:
  "snd (tag_calls R (nm # nms)) = snd (tag_calls (snd (get_or_create_tag R nm)) nms)"
  by (simp add: split_def Let_def)

lemma length_tag_calls: "length (fst (tag_calls R nms)) = length nms"
  by (induction nms arbitrary: R) (simp_all add: split_def Let_def)

lemma next_tag_step:
  assumes "sint (next_tag R) < 2 ^ 31 - 1"
  shows "sint (next_tag R) \<le> sint (next_tag (snd (get_or_create_tag R nm)))
         \<and> sint (next_tag (snd (get_or_create_tag R nm))) \<le> sint (next_tag R) + 1"
  using sint_succ_c_int [OF assms]
  by (simp add: get_or_create_tag_def Let_def split: option.splits)

lemma tag_map_step:
  "tag_map R \<subseteq>\<^sub>m tag_map (snd (get_or_create_tag R nm))"
  by (auto simp: get_or_create_tag_def Let_def map_le_def split: option.splits)

lemma tag_calls_inv:
  assumes "registry_inv S R" and "sint (next_tag R) + int (length nms) \<le> 2 ^ 31 - 1"
  shows "registry_inv (S \<union> set nms) (snd (tag_calls R nms))
         \<and> sint (next_tag R) \<le> sint (next_tag (snd (tag_calls R nms)))
         \<and> tag_map R \<subseteq>\<^sub>m tag_map (snd (tag_calls R nms))"
  using assms
proof (induction nms arbitrary: R S)
  case Nil
  then show ?case by simp
next
  case (Cons nm nms)
  let ?R1 = "snd (get_or_create_tag R nm)"
  have nov: "sint (next_tag R) < 2 ^ 31 - 1" using Cons.prems(2) by simp
  have inv1: "registry_inv (insert nm S) ?R1"
    using Cons.prems(1) nov by (rule registry_inv_step)
  have nx: "sint (next_tag R) \<le> sint (next_tag ?R1)" "sint (next_tag ?R1) \<le> sint (next_tag R) + 1"
    using next_tag_step [OF nov, of nm] by simp_all
  have bud: "sint (next_tag ?R1) + int (length nms) \<le> 2 ^ 31 - 1"
    using nx(2) Cons.prems(2) by simp
  note ih = Cons.IH [OF inv1 bud]
  have "tag_map R \<subseteq>\<^sub>m tag_map (snd (tag_calls ?R1 nms))"
    using tag_map_step [of R nm] ih by (blast intro: map_le_trans)
  then show ?case
    using ih nx(1) by (simp add: tag_calls_Cons_snd del: tag_calls.simps)
qed

lemma tag_calls_frozen:
  assumes "MAX_USERDATA_TAGS \<le> sint (next_tag R)"
    and "sint (next_tag R) + int (length nms) \<le> 2 ^ 31 - 1"
  shows "tag_map (snd (tag_calls R nms)) = tag_map R"
  using assms
proof (induction nms arbitrary: R)
  case Nil
  then show ?case by simp
next
  case (Cons nm nms)
  let ?R1 = "snd (get_or_create_tag R nm)"
  have nov: "sint (next_tag R) < 2 ^ 31 - 1" using Cons.prems(2) by simp
  have nx: "sint (next_tag R) \<le> sint (next_tag ?R1)" "sint (next_tag ?R1) \<le> sint (next_tag R) + 1"
    using next_tag_step [OF nov, of nm] by simp_all
  have m: "tag_map ?R1 = tag_map R"
    using Cons.prems(1) by (simp add: get_or_create_tag_def Let_def split: option.splits)
  have "tag_map (snd (tag_calls ?R1 nms)) = tag_map ?R1"
    using Cons.prems nx by (intro Cons.IH) simp_all
  then show ?case by (simp add: tag_calls_Cons_snd m del: tag_calls.simps)
qed

lemma get_or_create_tag_result:
  assumes "registry_inv S R"
  shows "(fst (get_or_create_tag R nm) \<noteq> 0 \<longrightarrow>
            tag_map (snd (get_or_create_tag R nm)) nm = Some (fst (get_or_create_tag R nm)))
         \<and> (fst (get_or_create_tag R nm) = 0 \<longrightarrow>
            tag_map R nm = None \<and> MAX_USERDATA_TAGS \<le> sint (next_tag R))"
proof (cases "tag_map R nm")
  case (Some t)
  then have "1 \<le> sint t" using assms by (simp add: registry_inv_def)
  then have "t \<noteq> 0" by auto
  then show ?thesis by (simp add: get_or_create_tag_found [OF Some] Some)
next
  case None
  have "1 \<le> sint (next_tag R)" using assms by (simp add: registry_inv_def)
  then have "next_tag R \<noteq> 0" by auto
  then show ?thesis
    using None by (simp add: get_or_create_tag_def Let_def)
qed

lemma tag_calls_results:
  assumes "registry_inv S R" and "sint (next_tag R) + int (length nms) \<le> 2 ^ 31 - 1"
    and "i < length nms"
  shows "(fst (tag_calls R nms) ! i \<noteq> 0 \<longrightarrow>
            tag_map (snd (tag_calls R nms)) (nms ! i) = Some (fst (tag_calls R nms) ! i))
         \<and> (fst (tag_calls R nms) ! i = 0 \<longrightarrow>
            tag_map (snd (tag_calls R nms)) (nms ! i) = None)"
  using assms
proof (induction nms arbitrary: R S i)
  case Nil
  then show ?case by simp
next
  case (Cons nm nms)
  let ?t = "fst (get_or_create_tag R nm)"
  let ?R1 = "snd (get_or_create_tag R nm)"
  have nov: "sint (next_tag R) < 2 ^ 31 - 1" using Cons.prems(2) by simp
  have inv1: "registry_inv (insert nm S) ?R1"
    using Cons.prems(1) nov by (rule registry_inv_step)
  have nx: "sint (next_tag R) \<le> sint (next_tag ?R1)" "sint (next_tag ?R1) \<le> sint (next_tag R) + 1"
    using next_tag_step [OF nov, of nm] by simp_all
  have bud: "sint (next_tag ?R1) + int (length nms) \<le> 2 ^ 31 - 1"
    using nx(2) Cons.prems(2) by simp
  show ?case
  proof (cases i)
    case 0
    note res = get_or_create_tag_result [OF Cons.prems(1), of nm]
    have le: "tag_map ?R1 \<subseteq>\<^sub>m tag_map (snd (tag_calls ?R1 nms))"
      using tag_calls_inv [OF inv1 bud] by simp
    have a: "?t \<noteq> 0 \<longrightarrow> tag_map (snd (tag_calls ?R1 nms)) nm = Some ?t"
    proof
      assume "?t \<noteq> 0"
      then have "tag_map ?R1 nm = Some ?t" using res by simp
      then show "tag_map (snd (tag_calls ?R1 nms)) nm = Some ?t"
        using le by (metis domI map_le_def)
    qed
    have b: "?t = 0 \<longrightarrow> tag_map (snd (tag_calls ?R1 nms)) nm = None"
    proof
      assume z: "?t = 0"
      then have none: "tag_map R nm = None" and ge: "MAX_USERDATA_TAGS \<le> sint (next_tag R)"
        using res by simp_all
      have "tag_map (snd (tag_calls ?R1 nms)) = tag_map ?R1"
        using ge nx(1) bud by (intro tag_calls_frozen) simp_all
      moreover have "tag_map ?R1 = tag_map R"
        by (simp add: get_or_create_tag_fallback [OF none ge])
      ultimately show "tag_map (snd (tag_calls ?R1 nms)) nm = None"
        using none by simp
    qed
    show ?thesis
      using a b by (simp add: 0 tag_calls_Cons_fst tag_calls_Cons_snd del: tag_calls.simps)
  next
    case (Suc k)
    then have k: "k < length nms" using Cons.prems(3) by simp
    show ?thesis
      using Cons.IH [OF inv1 bud k]
      by (simp add: Suc tag_calls_Cons_fst tag_calls_Cons_snd del: tag_calls.simps)
  qed
qed

lemma tag_calls_append_snd:
  "snd (tag_calls R (xs @ ys)) = snd (tag_calls (snd (tag_calls R xs)) ys)"
  by (induction xs arbitrary: R) (simp_all add: tag_calls_Cons_snd del: tag_calls.simps(2))

lemma tag_calls_nth:
  "i < length nms \<Longrightarrow>
   fst (tag_calls R nms) ! i
     = fst (get_or_create_tag (snd (tag_calls R (take i nms))) (nms ! i))"
proof (induction nms arbitrary: R i)
  case Nil
  then show ?case by simp
next
  case (Cons nm nms)
  show ?case
  proof (cases i)
    case 0
    then show ?thesis by (simp add: tag_calls_Cons_fst del: tag_calls.simps(2))
  next
    case (Suc k)
    then have "k < length nms" using Cons.prems by simp
    from Cons.IH [OF this] show ?thesis
      by (simp add: Suc tag_calls_Cons_fst tag_calls_Cons_snd del: tag_calls.simps(2))
  qed
qed

lemma registry_inv_exhausted:
  assumes "registry_inv S R" and "MAX_USERDATA_TAGS - 1 \<le> int (card S)"
  shows "MAX_USERDATA_TAGS \<le> sint (next_tag R)"
proof (rule ccontr)
  assume "\<not> MAX_USERDATA_TAGS \<le> sint (next_tag R)"
  then have lt: "sint (next_tag R) < MAX_USERDATA_TAGS" by simp
  then have sub: "S \<subseteq> dom (tag_map R)" using assms(1) by (simp add: registry_inv_def)
  have "dom (tag_map R) \<subseteq> S" "finite S" using assms(1) by (simp_all add: registry_inv_def)
  then have "dom (tag_map R) = S" using sub by auto
  then have "int (card S) = min (sint (next_tag R) - 1) (MAX_USERDATA_TAGS - 1)"
    using assms(1) by (simp add: registry_inv_def)
  then show False using lt assms(2) by simp
qed

lemma registry_inv_fallback_seen:
  assumes "registry_inv S R" and "fst (get_or_create_tag R nm) = 0"
  shows "MAX_USERDATA_TAGS - 1 \<le> int (card S)"
proof -
  have ge: "MAX_USERDATA_TAGS \<le> sint (next_tag R)"
    using get_or_create_tag_result [OF assms(1), of nm] assms(2) by simp
  have "dom (tag_map R) \<subseteq> S" "finite S" using assms(1) by (simp_all add: registry_inv_def)
  then have "card (dom (tag_map R)) \<le> card S" by (simp add: card_mono)
  moreover have "int (card (dom (tag_map R))) = MAX_USERDATA_TAGS - 1"
    using assms(1) ge by (simp add: registry_inv_def)
  ultimately show ?thesis by simp
qed

lemma tag_calls_init_inv:
  assumes "int (length nms) \<le> 2 ^ 31 - 2"
  shows "registry_inv (set nms) (snd (tag_calls tag_registry_init nms))"
proof -
  have "sint (next_tag tag_registry_init) + int (length nms) \<le> 2 ^ 31 - 1"
    using assms by (simp add: tag_registry_init_def)
  from tag_calls_inv [OF registry_inv_init this] show ?thesis by simp
qed

lemma tag_calls_exhausted:
  assumes "int (length nms) \<le> 2 ^ 31 - 2"
    and "MAX_USERDATA_TAGS - 1 \<le> int (card (set nms))"
    and "nm \<notin> set nms"
  shows "fst (get_or_create_tag (snd (tag_calls tag_registry_init nms)) nm) = 0"
proof -
  let ?R = "snd (tag_calls tag_registry_init nms)"
  have inv: "registry_inv (set nms) ?R" using assms(1) by (rule tag_calls_init_inv)
  have ge: "MAX_USERDATA_TAGS \<le> sint (next_tag ?R)"
    using inv assms(2) by (rule registry_inv_exhausted)
  have "dom (tag_map ?R) \<subseteq> set nms" using inv by (simp add: registry_inv_def)
  then have "tag_map ?R nm = None" using assms(3) by auto
  then show ?thesis using ge by (simp add: get_or_create_tag_fallback)
qed

lemma sample_type_names:
  "distinct (map sample_type_name [0..<n])" "''A'' \<notin> set (map sample_type_name [0..<n])"
  "''B'' \<notin> set (map sample_type_name [0..<n])"
proof -
  have "inj sample_type_name"
  proof (rule injI)
    fix a b assume "sample_type_name a = sample_type_name b"
    then have "length (sample_type_name a) = length (sample_type_name b)" by simp
    then show "a = b" by (simp add: sample_type_name_def)
  qed
  then show "distinct (map sample_type_name [0..<n])"
    by (simp add: distinct_map inj_on_def)
  show "''A'' \<notin> set (map sample_type_name [0..<n])" "''B'' \<notin> set (map sample_type_name [0..<n])"
    by (auto simp: sample_type_name_def)
qed

lemma card_sample_type_names: "card (set (map sample_type_name [0..<n])) = n"
  using sample_type_names(1) [of n] by (simp add: distinct_card del: set_map)

lemma udata_register_destructors: "udata (register_destructors L ds) = udata L"
proof (induction ds arbitrary: L)
  case Nil
  show ?case by simp
next
  case (Cons d ds)
  obtain tag dtor where d: "d = (tag, dtor)" by (cases d) auto
  show ?case
    by (simp add: d Cons.IH register_destructor_def lua_setuserdatadtor_def)
qed

lemma finalizer_plain:
  "finalizer (register_destructors (snd (lua_newuserdata L sz)) ds) (fst (lua_newuserdata L sz))
     = None"
  by (simp add: finalizer_def udata_register_destructors lua_newuserdata_def)

text \<open>
  Claim C4. After \<^verbatim>\<open>get_or_create_tag\<close> has been called with \<^verbatim>\<open>MAX_USERDATA_TAGS\<close>
  distinct names, a call with a further name returns the tag 0; \<^verbatim>\<open>newuserdata_tagged\<close>
  with that tag makes the plain allocation \<^verbatim>\<open>lua_newuserdata\<close>, and the block it creates
  has no finalizer, whatever destructors are registered afterwards.
\<close>

theorem tag_space_exhausted_untagged:
  assumes "distinct nms" and "int (length nms) = MAX_USERDATA_TAGS" and "nm \<notin> set nms"
  shows "fst (get_or_create_tag (snd (tag_calls tag_registry_init nms)) nm) = 0
         \<and> newuserdata_tagged L sz (fst (get_or_create_tag (snd (tag_calls tag_registry_init nms)) nm))
             = lua_newuserdata L sz
         \<and> finalizer
             (register_destructors
                (snd (newuserdata_tagged L sz
                   (fst (get_or_create_tag (snd (tag_calls tag_registry_init nms)) nm)))) ds)
             (fst (newuserdata_tagged L sz
                   (fst (get_or_create_tag (snd (tag_calls tag_registry_init nms)) nm))))
             = None"
proof -
  have "card (set nms) = length nms" using assms(1) by (rule distinct_card)
  then have c: "MAX_USERDATA_TAGS - 1 \<le> int (card (set nms))" using assms(2) by simp
  have l: "int (length nms) \<le> 2 ^ 31 - 2"
    using assms(2) by (simp add: MAX_USERDATA_TAGS_def)
  have z: "fst (get_or_create_tag (snd (tag_calls tag_registry_init nms)) nm) = 0"
    using l c assms(3) by (rule tag_calls_exhausted)
  have n: "newuserdata_tagged L sz 0 = lua_newuserdata L sz"
    by (simp add: newuserdata_tagged_def)
  show ?thesis
    by (simp only: z n finalizer_plain simp_thms)
qed

theorem tag_space_exhausted_untagged_witness:
  "distinct (map sample_type_name [0..<256])
   \<and> int (length (map sample_type_name [0..<256])) = MAX_USERDATA_TAGS
   \<and> ''A'' \<notin> set (map sample_type_name [0..<256])
   \<and> fst (get_or_create_tag (snd (tag_calls tag_registry_init (map sample_type_name [0..<256]))) ''A'')
       = 0"
proof -
  have 1: "distinct (map sample_type_name [0..<256])"
    by (rule sample_type_names(1))
  have 2: "int (length (map sample_type_name [0..<256])) = MAX_USERDATA_TAGS"
    by (simp add: MAX_USERDATA_TAGS_def)
  have 3: "''A'' \<notin> set (map sample_type_name [0..<256])"
    by (rule sample_type_names(2))
  from tag_space_exhausted_untagged [OF 1 2 3] 1 2 3 show ?thesis by blast
qed

text \<open>
  Claim C5 as stated fails once the tag space is used up: after 255 names hold the tags
  1 to 255, two further names, different from each other, both get the tag 0.
\<close>

theorem get_or_create_tag_shared_fallback:
  "''A'' \<noteq> ''B''
   \<and> fst (get_or_create_tag
           (snd (tag_calls tag_registry_init (map sample_type_name [0..<255]))) ''A'') = 0
   \<and> fst (get_or_create_tag
           (snd (get_or_create_tag
              (snd (tag_calls tag_registry_init (map sample_type_name [0..<255]))) ''A'')) ''B'') = 0"
proof -
  let ?nms = "map sample_type_name [0..<255]"
  have c: "MAX_USERDATA_TAGS - 1 \<le> int (card (set ?nms))"
    by (simp only: card_sample_type_names) (simp add: MAX_USERDATA_TAGS_def)
  have l: "int (length ?nms) \<le> 2 ^ 31 - 2" by simp
  have a: "fst (get_or_create_tag (snd (tag_calls tag_registry_init ?nms)) ''A'') = 0"
    using l c sample_type_names(2) by (rule tag_calls_exhausted)
  have c': "MAX_USERDATA_TAGS - 1 \<le> int (card (set (?nms @ [''A''])))"
  proof -
    have "card (set ?nms) \<le> card (set (?nms @ [''A'']))"
      by (intro card_mono) auto
    then show ?thesis using c by linarith
  qed
  have l': "int (length (?nms @ [''A''])) \<le> 2 ^ 31 - 2" by simp
  have n': "''B'' \<notin> set (?nms @ [''A''])"
    using sample_type_names(3) [of 255] by simp
  have "fst (get_or_create_tag (snd (tag_calls tag_registry_init (?nms @ [''A'']))) ''B'') = 0"
    using l' c' n' by (rule tag_calls_exhausted)
  then have b: "fst (get_or_create_tag
           (snd (get_or_create_tag (snd (tag_calls tag_registry_init ?nms)) ''A'')) ''B'') = 0"
    by (simp add: tag_calls_append_snd tag_calls_Cons_snd del: tag_calls.simps(2))
  show ?thesis using a b by simp
qed

text \<open>
  Claim C5, amended. In every run of fewer than \<open>2 ^ 31 - 1\<close> calls from the initial
  registry: two calls with the same name return the same tag; two calls with different
  names return different tags unless both return the fallback 0; and a call returns 0
  only after \<^verbatim>\<open>MAX_USERDATA_TAGS - 1\<close> distinct names have come before it.
\<close>

theorem get_or_create_tag_stable_distinct:
  assumes "int (length nms) \<le> 2 ^ 31 - 2" and "i < length nms" and "j < length nms"
  shows "(nms ! i = nms ! j \<longrightarrow>
            fst (tag_calls tag_registry_init nms) ! i = fst (tag_calls tag_registry_init nms) ! j)
         \<and> (nms ! i \<noteq> nms ! j
              \<and> (fst (tag_calls tag_registry_init nms) ! i \<noteq> 0
                   \<or> fst (tag_calls tag_registry_init nms) ! j \<noteq> 0) \<longrightarrow>
            fst (tag_calls tag_registry_init nms) ! i \<noteq> fst (tag_calls tag_registry_init nms) ! j)
         \<and> (fst (tag_calls tag_registry_init nms) ! i = 0 \<longrightarrow>
            MAX_USERDATA_TAGS - 1 \<le> int (card (set (take i nms))))"
proof -
  let ?ts = "fst (tag_calls tag_registry_init nms)"
  let ?R = "snd (tag_calls tag_registry_init nms)"
  have bud: "sint (next_tag tag_registry_init) + int (length nms) \<le> 2 ^ 31 - 1"
    using assms(1) by (simp add: tag_registry_init_def)
  note ri = tag_calls_results [OF registry_inv_init bud assms(2)]
  note rj = tag_calls_results [OF registry_inv_init bud assms(3)]
  have inj: "inj_on (tag_map ?R) (dom (tag_map ?R))"
    using tag_calls_init_inv [OF assms(1)] by (simp add: registry_inv_def)
  have same: "nms ! i = nms ! j \<longrightarrow> ?ts ! i = ?ts ! j"
    using ri rj by (cases "?ts ! i = 0"; cases "?ts ! j = 0") auto
  have diff: "nms ! i \<noteq> nms ! j \<and> (?ts ! i \<noteq> 0 \<or> ?ts ! j \<noteq> 0) \<longrightarrow> ?ts ! i \<noteq> ?ts ! j"
  proof (intro impI notI)
    assume h: "nms ! i \<noteq> nms ! j \<and> (?ts ! i \<noteq> 0 \<or> ?ts ! j \<noteq> 0)" and e: "?ts ! i = ?ts ! j"
    then have nz: "?ts ! i \<noteq> 0" "?ts ! j \<noteq> 0" by auto
    then have "tag_map ?R (nms ! i) = Some (?ts ! i)" "tag_map ?R (nms ! j) = Some (?ts ! j)"
      using ri rj by simp_all
    then have "tag_map ?R (nms ! i) = tag_map ?R (nms ! j)"
      "nms ! i \<in> dom (tag_map ?R)" "nms ! j \<in> dom (tag_map ?R)"
      using e by auto
    then have "nms ! i = nms ! j" using inj by (auto dest: inj_onD)
    then show False using h by simp
  qed
  have zero: "?ts ! i = 0 \<longrightarrow> MAX_USERDATA_TAGS - 1 \<le> int (card (set (take i nms)))"
  proof
    assume z: "?ts ! i = 0"
    have "int (length (take i nms)) \<le> 2 ^ 31 - 2" using assms(1) by simp
    then have inv: "registry_inv (set (take i nms)) (snd (tag_calls tag_registry_init (take i nms)))"
      by (rule tag_calls_init_inv)
    have "fst (get_or_create_tag (snd (tag_calls tag_registry_init (take i nms))) (nms ! i)) = 0"
      using z tag_calls_nth [OF assms(2), of tag_registry_init] by simp
    with inv show "MAX_USERDATA_TAGS - 1 \<le> int (card (set (take i nms)))"
      by (rule registry_inv_fallback_seen)
  qed
  show ?thesis using same diff zero by blast
qed

theorem get_or_create_tag_stable_distinct_witness:
  "int (length [''Actor'', ''Widget'', ''Actor'']) \<le> 2 ^ 31 - 2
   \<and> fst (tag_calls tag_registry_init [''Actor'', ''Widget'', ''Actor'']) = [1, 2, 1]
   \<and> fst (tag_calls tag_registry_init [''Actor'', ''Widget'', ''Actor'']) ! 0
       = fst (tag_calls tag_registry_init [''Actor'', ''Widget'', ''Actor'']) ! 2
   \<and> fst (tag_calls tag_registry_init [''Actor'', ''Widget'', ''Actor'']) ! 0
       \<noteq> fst (tag_calls tag_registry_init [''Actor'', ''Widget'', ''Actor'']) ! 1"
proof -
  have l: "int (length [''Actor'', ''Widget'', ''Actor'']) \<le> 2 ^ 31 - 2" by simp
  have v: "fst (tag_calls tag_registry_init [''Actor'', ''Widget'', ''Actor'']) = [1, 2, 1]"
    by (simp add: get_or_create_tag_def tag_registry_init_def MAX_USERDATA_TAGS_def Let_def)
  have nz: "fst (tag_calls tag_registry_init [''Actor'', ''Widget'', ''Actor'']) ! 0 \<noteq> 0"
    by (simp only: v) simp
  have s: "fst (tag_calls tag_registry_init [''Actor'', ''Widget'', ''Actor'']) ! 0
       = fst (tag_calls tag_registry_init [''Actor'', ''Widget'', ''Actor'']) ! 2"
    using get_or_create_tag_stable_distinct [OF l, of 0 2] by simp
  have d: "fst (tag_calls tag_registry_init [''Actor'', ''Widget'', ''Actor'']) ! 0
       \<noteq> fst (tag_calls tag_registry_init [''Actor'', ''Widget'', ''Actor'']) ! 1"
    using get_or_create_tag_stable_distinct [OF l, of 0 1] nz by simp
  show ?thesis using l v s d by blast
qed

subsection \<open>User values\<close>

lemma index2addr_minus1:
  "stack L = xs @ [x] \<Longrightarrow> index2addr L (- 1) = Some (length xs)"
  by (simp add: index2addr_def lua_gettop_def lua_ispseudo_def LUA_REGISTRYINDEX_def)

lemma index2addr_minus2:
  "stack L = xs @ [x, y] \<Longrightarrow> index2addr L (- 2) = Some (length xs)"
  by (simp add: index2addr_def lua_gettop_def lua_ispseudo_def LUA_REGISTRYINDEX_def)

lemma index2addr_abs_push:
  assumes "index2addr L idx = Some p" and "stack L' = stack L @ ys"
  shows "index2addr L' (lua_absindex L idx) = Some p"
proof -
  have "p < length (stack L)" using assms(1) by (rule index2addr_bound)
  then show ?thesis
    using assms(2) by (simp add: index2addr_absindex [OF assms(1)] index2addr_def lua_gettop_def)
qed

lemma nth_abs_push:
  assumes "index2addr L idx = Some p" and "stack L' = stack L @ ys"
  shows "stack L' ! p = stack L ! p"
  using index2addr_bound [OF assms(1)] assms(2) by (simp add: nth_append)

lemma lua_getiuservalue_no_env:
  assumes i: "index2addr L idx = Some p" and u: "stack L ! p = TUserdata u"
    and e: "fenv L u = None"
  shows "lua_getiuservalue L idx n = Some (LUA_TNIL, L\<lparr>stack := stack L @ [TNil]\<rparr>)"
proof -
  have a: "index2addr L (lua_absindex L idx) = Some p"
    using index2addr_abs_push [OF i, of L "[]"] by simp
  have 1: "lua_getfenv L (lua_absindex L idx) = Some (L\<lparr>stack := stack L @ [TNil]\<rparr>)"
    by (simp add: lua_getfenv_def a u e)
  have 2: "lua_isnil (L\<lparr>stack := stack L @ [TNil]\<rparr>) (- 1) = Some True"
    by (simp add: lua_isnil_def lua_type_def index2addr_minus1 [of _ "stack L" TNil])
  show ?thesis
    by (simp add: lua_getiuservalue_def 1 2)
qed

lemma lua_getiuservalue_env:
  assumes i: "index2addr L idx = Some p" and u: "stack L ! p = TUserdata u"
    and e: "fenv L u = Some a" and t: "tables L a = Some t"
  shows "lua_getiuservalue L idx n
           = Some (type_of (case t n of None \<Rightarrow> TNil | Some v \<Rightarrow> v),
                   L\<lparr>stack := stack L @ [case t n of None \<Rightarrow> TNil | Some v \<Rightarrow> v]\<rparr>)"
proof -
  let ?v = "case t n of None \<Rightarrow> TNil | Some v \<Rightarrow> v"
  let ?L1 = "L\<lparr>stack := stack L @ [TTable a]\<rparr>"
  let ?L2 = "L\<lparr>stack := stack L @ [TTable a, ?v]\<rparr>"
  let ?L3 = "L\<lparr>stack := stack L @ [?v]\<rparr>"
  have ai: "index2addr L (lua_absindex L idx) = Some p"
    using index2addr_abs_push [OF i, of L "[]"] by simp
  have 1: "lua_getfenv L (lua_absindex L idx) = Some ?L1"
    by (simp add: lua_getfenv_def ai u e)
  have 2: "lua_isnil ?L1 (- 1) = Some False"
    by (simp add: lua_isnil_def lua_type_def index2addr_minus1 [of _ "stack L" "TTable a"])
  have 3: "lua_rawgeti ?L1 (- 1) n = Some ?L2"
    by (simp add: lua_rawgeti_def index2addr_minus1 [of _ "stack L" "TTable a"] t)
  have 4: "lua_remove ?L2 (- 2) = Some ?L3"
    by (simp add: lua_remove_def index2addr_minus2 [of _ "stack L" "TTable a" ?v])
  have 5: "lua_type ?L3 (- 1) = Some (type_of ?v)"
    by (simp add: lua_type_def index2addr_minus1 [of _ "stack L" ?v])
  show ?thesis
    by (simp add: lua_getiuservalue_def 1 2 3 4 5)
qed

lemma store_at_lookup:
  "(case store_at t n v n of None \<Rightarrow> TNil | Some w \<Rightarrow> w) = v"
  by (simp add: store_at_def)

lemma lua_setiuservalue_env:
  assumes i: "index2addr L idx = Some p" and u: "stack L ! p = TUserdata u"
    and e: "fenv L u = Some a" and t: "tables L a = Some t"
  shows "lua_setiuservalue L idx n
           = Some (1, L\<lparr>stack := butlast (stack L),
                        tables := (tables L)(a \<mapsto> store_at t n (last (stack L)))\<rparr>)"
proof -
  have ne: "stack L \<noteq> []" using index2addr_bound [OF i] by auto
  define xs where "xs = butlast (stack L)"
  define v where "v = last (stack L)"
  have st: "stack L = xs @ [v]" using ne by (simp add: xs_def v_def)
  let ?L1 = "L\<lparr>stack := xs @ [v, TTable a]\<rparr>"
  let ?L3 = "L\<lparr>stack := xs @ [v, TTable a, v]\<rparr>"
  let ?L4 = "L\<lparr>stack := xs @ [v, TTable a], tables := (tables L)(a \<mapsto> store_at t n v)\<rparr>"
  let ?L5 = "L\<lparr>stack := xs, tables := (tables L)(a \<mapsto> store_at t n v)\<rparr>"
  have ai: "index2addr L (lua_absindex L idx) = Some p"
    using index2addr_abs_push [OF i, of L "[]"] by simp
  have "lua_getfenv L (lua_absindex L idx) = Some (L\<lparr>stack := stack L @ [TTable a]\<rparr>)"
    by (simp add: lua_getfenv_def ai u e)
  then have 1: "lua_getfenv L (lua_absindex L idx) = Some ?L1"
    by (simp add: st)
  have 2: "lua_isnil ?L1 (- 1) = Some False"
    by (simp add: nth_append lua_isnil_def lua_type_def index2addr_minus1 [of _ "xs @ [v]" "TTable a"])
  have 3: "lua_pushvalue ?L1 (- 2) = Some ?L3"
    by (simp add: nth_append lua_pushvalue_def index2addr_minus2 [of _ xs v "TTable a"])
  have 4: "lua_rawseti ?L3 (- 2) n = Some ?L4"
    by (simp add: nth_append lua_rawseti_def index2addr_minus2 [of _ "xs @ [v]" "TTable a" v] t
        butlast_append)
  have 5: "lua_pop ?L4 2 = Some ?L5"
    by (simp add: lua_pop_def)
  have "lua_setiuservalue L idx n = Some (1, ?L5)"
    by (simp add: lua_setiuservalue_def 1 2 3 4 5)
  then show ?thesis by (simp add: xs_def v_def)
qed

lemma lua_setiuservalue_no_env:
  assumes i: "index2addr L idx = Some p" and u: "stack L ! p = TUserdata u"
    and e: "fenv L u = None"
  shows "lua_setiuservalue L idx n
           = Some (1, L\<lparr>stack := butlast (stack L),
                        tables := (tables L)(next_addr L \<mapsto> store_at Map.empty n (last (stack L))),
                        fenv := (fenv L)(u \<mapsto> next_addr L),
                        next_addr := Suc (next_addr L)\<rparr>)"
proof -
  have pl: "p < length (stack L)" using i by (rule index2addr_bound)
  then have ne: "stack L \<noteq> []" by auto
  define xs where "xs = butlast (stack L)"
  define v where "v = last (stack L)"
  define a where "a = next_addr L"
  have st: "stack L = xs @ [v]" using ne by (simp add: xs_def v_def)
  have pl': "p < Suc (length xs)" using pl st by simp
  let ?L1 = "L\<lparr>stack := xs @ [v, TNil]\<rparr>"
  let ?La = "L\<lparr>stack := xs @ [v]\<rparr>"
  let ?Lb = "L\<lparr>stack := xs @ [v, TTable a], tables := (tables L)(a \<mapsto> Map.empty),
               next_addr := Suc a\<rparr>"
  let ?Lc = "L\<lparr>stack := xs @ [v, TTable a, TTable a], tables := (tables L)(a \<mapsto> Map.empty),
               next_addr := Suc a\<rparr>"
  let ?Ld = "L\<lparr>stack := xs @ [v, TTable a], tables := (tables L)(a \<mapsto> Map.empty),
               fenv := (fenv L)(u \<mapsto> a), next_addr := Suc a\<rparr>"
  let ?L3 = "L\<lparr>stack := xs @ [v, TTable a, v], tables := (tables L)(a \<mapsto> Map.empty),
               fenv := (fenv L)(u \<mapsto> a), next_addr := Suc a\<rparr>"
  let ?L4 = "L\<lparr>stack := xs @ [v, TTable a],
               tables := (tables L)(a \<mapsto> store_at Map.empty n v),
               fenv := (fenv L)(u \<mapsto> a), next_addr := Suc a\<rparr>"
  let ?L5 = "L\<lparr>stack := xs,
               tables := (tables L)(a \<mapsto> store_at Map.empty n v),
               fenv := (fenv L)(u \<mapsto> a), next_addr := Suc a\<rparr>"
  have ai: "index2addr L (lua_absindex L idx) = Some p"
    using index2addr_abs_push [OF i, of L "[]"] by simp
  have ux: "(xs @ [v]) ! p = TUserdata u" using u st by simp
  have "lua_getfenv L (lua_absindex L idx) = Some (L\<lparr>stack := stack L @ [TNil]\<rparr>)"
    by (simp add: lua_getfenv_def ai u e)
  then have 1: "lua_getfenv L (lua_absindex L idx) = Some ?L1"
    by (simp add: st)
  have 2: "lua_isnil ?L1 (- 1) = Some True"
    by (simp add: nth_append lua_isnil_def lua_type_def index2addr_minus1 [of _ "xs @ [v]" TNil])
  have 3: "lua_pop ?L1 (Suc 0) = Some ?La"
    by (simp add: lua_pop_def)
  have 4: "lua_createtable ?La 4 0 = ?Lb"
    by (simp add: lua_createtable_def a_def)
  have 5: "lua_pushvalue ?Lb (- 1) = Some ?Lc"
    by (simp add: nth_append lua_pushvalue_def index2addr_minus1 [of _ "xs @ [v]" "TTable a"])
  have ic: "index2addr ?Lc (lua_absindex L idx) = Some p"
    using index2addr_abs_push [OF i, of ?Lc "[TTable a, TTable a]"] st by simp
  have uc: "(xs @ [v, TTable a, TTable a]) ! p = TUserdata u"
    using ux pl' by (cases "p < length xs") (auto simp: nth_append less_Suc_eq)
  have 6: "lua_setfenv ?Lc (lua_absindex L idx) = Some (1, ?Ld)"
    by (simp add: lua_setfenv_def ic uc butlast_append)
  have 7: "lua_pushvalue ?Ld (- 2) = Some ?L3"
    by (simp add: nth_append lua_pushvalue_def index2addr_minus2 [of _ xs v "TTable a"])
  have 8: "lua_rawseti ?L3 (- 2) n = Some ?L4"
    by (simp add: nth_append lua_rawseti_def index2addr_minus2 [of _ "xs @ [v]" "TTable a" v]
        butlast_append)
  have 9: "lua_pop ?L4 2 = Some ?L5"
    by (simp add: lua_pop_def)
  have "lua_setiuservalue L idx n = Some (1, ?L5)"
    by (simp add: lua_setiuservalue_def 1 2 3 4 5 6 7 8 9)
  then show ?thesis by (simp add: xs_def v_def a_def)
qed

text \<open>
  Claim C8. On a userdata \<open>u\<close> at a valid index, with the value to store on top of the
  stack, \<^verbatim>\<open>lua_setiuservalue\<close> returns 1, pops the value, and leaves \<open>u\<close> with an
  environment table (the one it had, or a new one when it had none); wherever \<open>u\<close> sits
  on the stack afterwards, \<^verbatim>\<open>lua_getiuservalue\<close> with the same key pushes that value and
  returns its type. \<^verbatim>\<open>lua_getiuservalue\<close> pushes nil and returns \<^verbatim>\<open>LUA_TNIL\<close>, without
  failing, when \<open>u\<close> has no environment table and when the key is absent from it.
\<close>

theorem uservalue_set_then_get:
  assumes "index2addr L idx = Some p" and "stack L ! p = TUserdata u"
    and "case fenv L u of None \<Rightarrow> True | Some a \<Rightarrow> a \<in> dom (tables L)"
  shows "(case lua_setiuservalue L idx n of
            None \<Rightarrow> False
          | Some (r, L') \<Rightarrow>
              r = 1 \<and> stack L' = butlast (stack L)
              \<and> fenv L' u \<noteq> None \<and> (fenv L u \<noteq> None \<longrightarrow> fenv L' = fenv L)
              \<and> (\<forall>L2 idx2 p2.
                    tables L2 = tables L' \<and> fenv L2 = fenv L'
                    \<and> index2addr L2 idx2 = Some p2 \<and> stack L2 ! p2 = TUserdata u \<longrightarrow>
                    lua_getiuservalue L2 idx2 n
                      = Some (type_of (last (stack L)), L2\<lparr>stack := stack L2 @ [last (stack L)]\<rparr>)))
         \<and> (fenv L u = None \<longrightarrow>
              lua_getiuservalue L idx k = Some (LUA_TNIL, L\<lparr>stack := stack L @ [TNil]\<rparr>))
         \<and> (\<forall>a t. fenv L u = Some a \<and> tables L a = Some t \<and> t k = None \<longrightarrow>
              lua_getiuservalue L idx k = Some (LUA_TNIL, L\<lparr>stack := stack L @ [TNil]\<rparr>))"
proof -
  have get_nil: "fenv L u = None \<longrightarrow>
      lua_getiuservalue L idx k = Some (LUA_TNIL, L\<lparr>stack := stack L @ [TNil]\<rparr>)"
    using lua_getiuservalue_no_env [OF assms(1,2)] by simp
  have get_absent: "\<forall>a t. fenv L u = Some a \<and> tables L a = Some t \<and> t k = None \<longrightarrow>
      lua_getiuservalue L idx k = Some (LUA_TNIL, L\<lparr>stack := stack L @ [TNil]\<rparr>)"
    using lua_getiuservalue_env [OF assms(1,2)] by fastforce
  have set_get: "case lua_setiuservalue L idx n of
            None \<Rightarrow> False
          | Some (r, L') \<Rightarrow>
              r = 1 \<and> stack L' = butlast (stack L)
              \<and> fenv L' u \<noteq> None \<and> (fenv L u \<noteq> None \<longrightarrow> fenv L' = fenv L)
              \<and> (\<forall>L2 idx2 p2.
                    tables L2 = tables L' \<and> fenv L2 = fenv L'
                    \<and> index2addr L2 idx2 = Some p2 \<and> stack L2 ! p2 = TUserdata u \<longrightarrow>
                    lua_getiuservalue L2 idx2 n
                      = Some (type_of (last (stack L)), L2\<lparr>stack := stack L2 @ [last (stack L)]\<rparr>))"
  proof (cases "fenv L u")
    case None
    let ?a = "next_addr L"
    let ?t = "store_at Map.empty n (last (stack L))"
    have "\<And>L2 idx2 p2. tables L2 ?a = Some ?t \<Longrightarrow> fenv L2 u = Some ?a \<Longrightarrow>
            index2addr L2 idx2 = Some p2 \<Longrightarrow> stack L2 ! p2 = TUserdata u \<Longrightarrow>
            lua_getiuservalue L2 idx2 n
              = Some (type_of (last (stack L)), L2\<lparr>stack := stack L2 @ [last (stack L)]\<rparr>)"
      by (simp add: lua_getiuservalue_env [where t = ?t] store_at_lookup)
    then show ?thesis
      by (auto simp: lua_setiuservalue_no_env [OF assms(1,2) None] None)
  next
    case (Some a)
    then obtain t where t: "tables L a = Some t" using assms(3) by auto
    let ?t = "store_at t n (last (stack L))"
    have "\<And>L2 idx2 p2. tables L2 a = Some ?t \<Longrightarrow> fenv L2 u = Some a \<Longrightarrow>
            index2addr L2 idx2 = Some p2 \<Longrightarrow> stack L2 ! p2 = TUserdata u \<Longrightarrow>
            lua_getiuservalue L2 idx2 n
              = Some (type_of (last (stack L)), L2\<lparr>stack := stack L2 @ [last (stack L)]\<rparr>)"
      by (simp add: lua_getiuservalue_env [where t = ?t] store_at_lookup)
    then show ?thesis
      by (auto simp: lua_setiuservalue_env [OF assms(1,2) Some t] Some)
  qed
  show ?thesis
    using set_get get_nil get_absent by blast
qed

theorem uservalue_set_then_get_witness:
  "index2addr (lua_pushstring (snd (lua_newuserdata lua_newstate 8)) ''x'') (- 2) = Some 0
   \<and> stack (lua_pushstring (snd (lua_newuserdata lua_newstate 8)) ''x'') ! 0 = TUserdata 0
   \<and> (case fenv (lua_pushstring (snd (lua_newuserdata lua_newstate 8)) ''x'') 0 of
         None \<Rightarrow> True
       | Some a \<Rightarrow> a \<in> dom (tables (lua_pushstring (snd (lua_newuserdata lua_newstate 8)) ''x'')))
   \<and> (case lua_setiuservalue (lua_pushstring (snd (lua_newuserdata lua_newstate 8)) ''x'') (- 2) 1 of
         None \<Rightarrow> False
       | Some (r, L') \<Rightarrow>
           r = 1 \<and> stack L' = [TUserdata 0]
           \<and> lua_getiuservalue L' 1 1
               = Some (LUA_TSTRING, L'\<lparr>stack := [TUserdata 0, TString ''x'']\<rparr>))
   \<and> lua_getiuservalue (lua_pushstring (snd (lua_newuserdata lua_newstate 8)) ''x'') (- 2) 2
       = Some (LUA_TNIL, lua_pushstring (snd (lua_newuserdata lua_newstate 8)) ''x''
                 \<lparr>stack := [TUserdata 0, TString ''x'', TNil]\<rparr>)"
proof -
  define L0 where "L0 = lua_pushstring (snd (lua_newuserdata lua_newstate 8)) ''x''"
  have st: "stack L0 = [TUserdata 0, TString ''x'']"
    by (simp add: L0_def lua_pushstring_def lua_newuserdata_def lua_newstate_def c_str_def)
  have fe: "fenv L0 0 = None"
    by (simp add: L0_def lua_pushstring_def lua_newuserdata_def lua_newstate_def)
  have h1: "index2addr L0 (- 2) = Some 0"
    by (simp add: index2addr_def lua_gettop_def st lua_ispseudo_def LUA_REGISTRYINDEX_def)
  have h2: "stack L0 ! 0 = TUserdata 0"
    by (simp add: st)
  have h3: "case fenv L0 0 of None \<Rightarrow> True | Some a \<Rightarrow> a \<in> dom (tables L0)"
    by (simp add: fe)
  note t = uservalue_set_then_get [OF h1 h2 h3, of 1 2]
  have g: "lua_getiuservalue L0 (- 2) 2 = Some (LUA_TNIL, L0\<lparr>stack := [TUserdata 0, TString ''x'', TNil]\<rparr>)"
    using t fe by (simp add: st)
  have s: "case lua_setiuservalue L0 (- 2) 1 of
         None \<Rightarrow> False
       | Some (r, L') \<Rightarrow>
           r = 1 \<and> stack L' = [TUserdata 0]
           \<and> lua_getiuservalue L' 1 1
               = Some (LUA_TSTRING, L'\<lparr>stack := [TUserdata 0, TString ''x'']\<rparr>)"
  proof (cases "lua_setiuservalue L0 (- 2) 1")
    case None
    then show ?thesis using t by simp
  next
    case (Some res)
    obtain r L' where res: "res = (r, L')" by (cases res) auto
    have r: "r = 1" and st': "stack L' = [TUserdata 0]"
      using t by (simp_all add: Some res st)
    have i': "index2addr L' 1 = Some 0"
      by (simp add: index2addr_def lua_gettop_def st')
    have all: "\<forall>L2 idx2 p2.
                    tables L2 = tables L' \<and> fenv L2 = fenv L'
                    \<and> index2addr L2 idx2 = Some p2 \<and> stack L2 ! p2 = TUserdata 0 \<longrightarrow>
                    lua_getiuservalue L2 idx2 1
                      = Some (type_of (last (stack L0)), L2\<lparr>stack := stack L2 @ [last (stack L0)]\<rparr>)"
      using t by (simp add: Some res)
    have "tables L' = tables L' \<and> fenv L' = fenv L'
            \<and> index2addr L' 1 = Some 0 \<and> stack L' ! 0 = TUserdata 0"
      using i' st' by simp
    with all have "lua_getiuservalue L' 1 1
            = Some (type_of (last (stack L0)), L'\<lparr>stack := stack L' @ [last (stack L0)]\<rparr>)"
      by blast
    then show ?thesis
      by (simp add: Some res r st' st)
  qed
  show ?thesis
    unfolding L0_def [symmetric] using h1 h2 h3 s g by blast
qed

subsection \<open>The numeric adapter\<close>

lemma static_cast_double_exact:
  assumes d: "2 ^ nat (bitlen \<bar>sint v\<bar> - 53) dvd \<bar>sint v\<bar>"
  shows "\<exists>M E. static_cast_double v = Finite M (int E) \<and> M * 2 ^ E = sint v \<and> \<bar>M\<bar> < 2 ^ 53"
proof -
  define x where "x = sint v"
  define a where "a = \<bar>x\<bar>"
  define sh where "sh = nat (bitlen a - 53)"
  define q where "q = a div 2 ^ sh"
  have a0: "0 \<le> a" by (simp add: a_def)
  have r: "a mod 2 ^ sh = 0"
    using d by (simp add: a_def x_def sh_def mod_eq_0_iff_dvd)
  have qa: "q * 2 ^ sh = a"
    using d by (simp add: q_def a_def x_def sh_def)
  have q0: "0 \<le> q" using a0 by (simp add: q_def pos_imp_zdiv_nonneg_iff)
  have qlt: "q < 2 ^ 53"
  proof (cases "a = 0")
    case True
    then show ?thesis by (simp add: q_def)
  next
    case False
    then have pos: "0 < a" using a0 by simp
    have up: "a < 2 ^ nat (bitlen a)" using bitlen_bounds [OF pos] by simp
    show ?thesis
    proof (cases "bitlen a \<le> 53")
      case True
      then have "a < 2 ^ 53" using bitlen_le_iff_power [of a 53] by simp
      moreover have "sh = 0" using True by (simp add: sh_def)
      ultimately show ?thesis by (simp add: q_def)
    next
      case False
      then have "nat (bitlen a) = sh + 53" by (simp add: sh_def)
      then have "a < 2 ^ sh * 2 ^ 53" using up by (simp add: power_add)
      then have "q * 2 ^ sh < 2 ^ 53 * 2 ^ sh" by (simp add: qa mult.commute)
      then show ?thesis by simp
    qed
  qed
  have "static_cast_double v = Finite (sgn x * q) (int sh)"
    using r qlt by (simp add: static_cast_double_def Let_def x_def [symmetric] a_def [symmetric]
        sh_def [symmetric] q_def [symmetric])
  moreover have "sgn x * q * 2 ^ sh = x"
    by (simp add: mult.assoc qa a_def flip: abs_sgn) (simp add: mult_sgn_abs)
  moreover have "\<bar>sgn x * q\<bar> < 2 ^ 53"
    using qlt q0 by (simp add: abs_mult abs_sgn_eq)
  ultimately show ?thesis
    unfolding x_def by blast
qed

lemma small_int_fits_significand:
  assumes "\<bar>x\<bar> \<le> 2 ^ 53"
  shows "2 ^ nat (bitlen \<bar>x\<bar> - 53) dvd \<bar>x\<bar>"
proof (cases "\<bar>x\<bar> < 2 ^ 53")
  case True
  then have "bitlen \<bar>x\<bar> \<le> 53" using bitlen_le_iff_power [of "\<bar>x\<bar>" 53] by simp
  then show ?thesis by simp
next
  case False
  then have e: "\<bar>x\<bar> = 2 ^ 53" using assms by simp
  have "bitlen \<bar>x\<bar> = 54" using bitlen_twopow_add_eq [of 0 53] by (simp add: e)
  then show ?thesis by (simp add: e)
qed

lemma static_cast_int64_whole:
  assumes "- (2 ^ 63) \<le> M * 2 ^ E" and "M * 2 ^ E < 2 ^ 63"
  shows "static_cast_int64 (Finite M (int E)) = word_of_int (M * 2 ^ E)"
  using assms by (simp add: static_cast_int64_def truncate_toward_zero_def Let_def)

lemma static_cast_roundtrip:
  assumes "\<bar>sint v\<bar> \<le> 2 ^ 53"
  shows "static_cast_int64 (static_cast_double v) = v"
proof -
  obtain M E where c: "static_cast_double v = Finite M (int E)" and val: "M * 2 ^ E = sint v"
    using static_cast_double_exact [OF small_int_fits_significand [OF assms]] by blast
  have "- (2 ^ 63) \<le> M * 2 ^ E" "M * 2 ^ E < 2 ^ 63"
    using assms by (simp_all add: val)
  then have "static_cast_int64 (Finite M (int E)) = word_of_int (M * 2 ^ E)"
    by (rule static_cast_int64_whole)
  then show ?thesis by (simp add: c val)
qed

text \<open>
  Claim C2. For every 64-bit integer \<open>v\<close> with \<open>\<bar>v\<bar> \<le> 2 ^ 53\<close>, reading the value that
  \<^verbatim>\<open>lua_pushinteger\<close> pushed with \<^verbatim>\<open>lua_tointeger\<close> returns \<open>v\<close>: the conversion to
  \<^verbatim>\<open>double\<close> is exact on this range and the truncation gives the integer back.
\<close>

theorem pushinteger_tointeger_roundtrip:
  assumes "\<bar>sint v\<bar> \<le> 2 ^ 53"
  shows "lua_tointeger_64 str2d (lua_pushinteger_64 L v) (- 1) = Some v"
proof -
  have i: "index2addr (lua_pushinteger_64 L v) (- 1) = Some (length (stack L))"
    by (simp add: lua_pushinteger_64_def lua_pushnumber_def index2addr_def lua_gettop_def
        lua_ispseudo_def LUA_REGISTRYINDEX_def)
  have "lua_tonumber str2d (lua_pushinteger_64 L v) (- 1) = Some (static_cast_double v)"
    by (simp add: lua_tonumber_def i) (simp add: lua_pushinteger_64_def lua_pushnumber_def)
  then show ?thesis
    by (simp add: lua_tointeger_64_def static_cast_roundtrip [OF assms])
qed

theorem pushinteger_tointeger_roundtrip_witness:
  "\<bar>sint (9007199254740992 :: int64_t)\<bar> \<le> 2 ^ 53
   \<and> lua_tointeger_64 Map.empty (lua_pushinteger_64 lua_newstate 9007199254740992) (- 1)
       = Some 9007199254740992
   \<and> \<bar>sint (- 42 :: int64_t)\<bar> \<le> 2 ^ 53
   \<and> lua_tointeger_64 Map.empty (lua_pushinteger_64 lua_newstate (- 42)) (- 1) = Some (- 42)"
proof -
  have 1: "\<bar>sint (9007199254740992 :: int64_t)\<bar> \<le> 2 ^ 53" by simp
  have 2: "\<bar>sint (- 42 :: int64_t)\<bar> \<le> 2 ^ 53" by simp
  show ?thesis
    using 1 2 pushinteger_tointeger_roundtrip [OF 1, of Map.empty lua_newstate]
      pushinteger_tointeger_roundtrip [OF 2, of Map.empty lua_newstate]
    by blast
qed

text \<open>
  Past the bound the conversion rounds: \<open>2 ^ 53 + 1\<close> is pushed as \<open>2 ^ 53\<close>, and read
  back as such.
\<close>

lemma static_cast_precision_boundary:
  "static_cast_double (9007199254740993 :: int64_t) = Finite (2 ^ 52) 1
   \<and> static_cast_int64 (static_cast_double (9007199254740993 :: int64_t)) = 9007199254740992"
proof -
  have b: "bitlen 9007199254740993 = 54"
    using bitlen_twopow_add_eq [of 1 53] by simp
  have c: "static_cast_double (9007199254740993 :: int64_t) = Finite (2 ^ 52) 1"
    by (simp add: static_cast_double_def Let_def b)
  show ?thesis
    by (simp add: c static_cast_int64_def truncate_toward_zero_def)
qed

lemma Finite_nat_exponent:
  "\<exists>M E. (if c then Finite a (int sh + 1) else Finite b (int sh)) = Finite M (int E)"
proof (cases c)
  case True
  have "Finite a (int sh + 1) = Finite a (int (Suc sh))" by simp
  then show ?thesis using True by (simp only: if_True) blast
next
  case False
  then show ?thesis by (simp only: if_False) blast
qed

lemma static_cast_double_form:
  "\<exists>M E. static_cast_double v = Finite M (int E)"
  unfolding static_cast_double_def Let_def by (rule Finite_nat_exponent)

lemma double_eq_integer_value:
  assumes "integer_value (Finite m e) = Some t"
  shows "double_eq (Finite m e) (Finite m' (int E')) \<longleftrightarrow> t = m' * 2 ^ E'"
proof (cases "0 \<le> e")
  case True
  define E where "E = nat e"
  have e: "e = int E" using True by (simp add: E_def)
  have t: "t = m * 2 ^ E" using assms True by (simp add: integer_value_def E_def)
  define l where "l = min E E'"
  have El: "(2::int) ^ (E - l) * 2 ^ l = 2 ^ E" "(2::int) ^ (E' - l) * 2 ^ l = 2 ^ E'"
    by (simp_all add: l_def flip: power_add)
  have "double_eq (Finite m e) (Finite m' (int E'))
          \<longleftrightarrow> m * 2 ^ (E - l) = m' * 2 ^ (E' - l)"
    by (simp add: double_eq_def e Let_def l_def min_def nat_diff_distrib')
  also have "\<dots> \<longleftrightarrow> m * 2 ^ (E - l) * 2 ^ l = m' * 2 ^ (E' - l) * 2 ^ l"
    by simp
  also have "\<dots> \<longleftrightarrow> m * 2 ^ E = m' * 2 ^ E'"
    by (simp only: mult.assoc El)
  finally show ?thesis by (simp add: t)
next
  case False
  define k where "k = nat (- e)"
  have e: "e = - int k" and kpos: "0 < k" using False by (simp_all add: k_def)
  have dv: "2 ^ k dvd m"
    using assms False by (simp add: integer_value_def k_def split: if_splits)
  have t: "t = m div 2 ^ k"
    using assms False dv by (simp add: integer_value_def k_def)
  have m: "m = t * 2 ^ k" using dv t by simp
  have "double_eq (Finite m e) (Finite m' (int E')) \<longleftrightarrow> m = m' * 2 ^ (E' + k)"
    using False by (simp add: double_eq_def e Let_def min_def nat_add_distrib)
  also have "\<dots> \<longleftrightarrow> t * 2 ^ k = (m' * 2 ^ E') * 2 ^ k"
    by (simp add: m power_add mult.assoc)
  also have "\<dots> \<longleftrightarrow> t = m' * 2 ^ E'"
    by simp
  finally show ?thesis .
qed

lemma double_eq_whole:
  assumes "double_eq (Finite m e) (Finite m' (int E'))"
  shows "integer_value (Finite m e) \<noteq> None"
proof (cases "0 \<le> e")
  case True
  then show ?thesis by (simp add: integer_value_def)
next
  case False
  define k where "k = nat (- e)"
  have e: "e = - int k" using False by (simp add: k_def)
  have "m = m' * 2 ^ (E' + k)"
    using assms False by (simp add: double_eq_def e Let_def min_def nat_add_distrib)
  then have "2 ^ k dvd m" by (simp add: power_add)
  then show ?thesis using False by (simp add: integer_value_def k_def)
qed

lemma truncate_integer_value:
  assumes "integer_value (Finite m e) = Some t"
  shows "truncate_toward_zero m e = t"
proof (cases "0 \<le> e")
  case True
  then show ?thesis using assms by (simp add: integer_value_def truncate_toward_zero_def)
next
  case False
  define k where "k = nat (- e)"
  have dv: "2 ^ k dvd m"
    using assms False by (simp add: integer_value_def k_def split: if_splits)
  have t: "t = m div 2 ^ k"
    using assms False dv by (simp add: integer_value_def k_def)
  have "sgn m * (\<bar>m\<bar> div 2 ^ k) = m div 2 ^ k"
  proof -
    obtain c where c: "m = 2 ^ k * c" using dv by (auto elim: dvdE)
    have "\<bar>m\<bar> div 2 ^ k = \<bar>c\<bar>" by (simp add: c abs_mult)
    moreover have "m div 2 ^ k = c" by (simp add: c)
    moreover have "sgn m = sgn c" by (simp add: c sgn_mult)
    ultimately show ?thesis by (simp add: mult_sgn_abs)
  qed
  then show ?thesis using False by (simp add: truncate_toward_zero_def t k_def)
qed

lemma sint_word_of_int_int64:
  assumes "- (2 ^ 63) \<le> t" and "t < 2 ^ 63"
  shows "sint (word_of_int t :: int64_t) = t"
  using assms by (simp add: sint_sbintrunc' signed_take_bit_int_eq_self)

lemma representable_fits_significand:
  assumes d: "is_double (Finite m e)" and t: "integer_value (Finite m e) = Some t"
  shows "2 ^ nat (bitlen \<bar>t\<bar> - 53) dvd \<bar>t\<bar>"
proof -
  have mlt: "\<bar>m\<bar> < 2 ^ 53" using d by (simp add: is_double_def)
  show ?thesis
  proof (cases "0 \<le> e")
    case True
    define E where "E = nat e"
    have tv: "t = m * 2 ^ E" using t True by (simp add: integer_value_def E_def)
    show ?thesis
    proof (cases "m = 0")
      case True
      then show ?thesis by (simp add: tv)
    next
      case False
      then have pos: "0 < \<bar>m\<bar>" by simp
      have "bitlen \<bar>m\<bar> \<le> 53" using mlt bitlen_le_iff_power [of "\<bar>m\<bar>" 53] by simp
      moreover have "bitlen (\<bar>m\<bar> * 2 ^ E) = bitlen \<bar>m\<bar> + int E"
        using pos by (rule bitlen_pow2)
      ultimately have "nat (bitlen (\<bar>m\<bar> * 2 ^ E) - 53) \<le> E" by simp
      then have "(2::int) ^ nat (bitlen (\<bar>m\<bar> * 2 ^ E) - 53) dvd 2 ^ E"
        by (rule le_imp_power_dvd)
      then have "2 ^ nat (bitlen (\<bar>m\<bar> * 2 ^ E) - 53) dvd \<bar>m\<bar> * 2 ^ E"
        by (rule dvd_mult)
      then show ?thesis by (simp add: tv abs_mult)
    qed
  next
    case False
    define k where "k = nat (- e)"
    have dv: "2 ^ k dvd m"
      using t False by (simp add: integer_value_def k_def split: if_splits)
    have tv: "t = m div 2 ^ k"
      using t False dv by (simp add: integer_value_def k_def)
    have m: "m = t * 2 ^ k" using dv tv by simp
    have "\<bar>t\<bar> * 1 \<le> \<bar>t\<bar> * 2 ^ k"
      by (rule mult_left_mono) simp_all
    then have "\<bar>t\<bar> \<le> \<bar>m\<bar>" by (simp add: m abs_mult)
    then have "\<bar>t\<bar> \<le> 2 ^ 53" using mlt by simp
    then show ?thesis by (rule small_int_fits_significand)
  qed
qed

lemma static_cast_double_int64_min:
  "\<exists>M E. static_cast_double (word_of_int (- (2 ^ 63))) = Finite M (int E)
         \<and> M * 2 ^ E = - (2 ^ 63)"
proof -
  have s: "sint (word_of_int (- (2 ^ 63)) :: int64_t) = - (2 ^ 63)"
    by (rule sint_word_of_int_int64) simp_all
  have b: "bitlen 9223372036854775808 = 64" using bitlen_twopow_add_eq [of 0 63] by simp
  have "2 ^ nat (bitlen \<bar>sint (word_of_int (- (2 ^ 63)) :: int64_t)\<bar> - 53)
          dvd \<bar>sint (word_of_int (- (2 ^ 63)) :: int64_t)\<bar>"
    by (simp only: s) (simp add: b)
  from static_cast_double_exact [OF this] show ?thesis
    by (simp only: s) blast
qed

lemma double_eq_roundtrip_iff:
  assumes "is_double n"
  shows "double_eq n (static_cast_double (static_cast_int64 n))
           \<longleftrightarrow> (case integer_value n of
                  None \<Rightarrow> False
                | Some t \<Rightarrow> - (2 ^ 63) \<le> t \<and> t < 2 ^ 63)"
proof (cases n)
  case (Finite m e)
  obtain M E where c: "static_cast_double (static_cast_int64 n) = Finite M (int E)"
    using static_cast_double_form by blast
  have c': "static_cast_double (static_cast_int64 (Finite m e)) = Finite M (int E)"
    using c by (simp add: Finite)
  show ?thesis
  proof (cases "integer_value n")
    case None
    then have "\<not> double_eq (Finite m e) (Finite M (int E))"
      using double_eq_whole [of m e M E] by (auto simp: Finite)
    then have "\<not> double_eq n (Finite M (int E))" by (simp add: Finite)
    then have "\<not> double_eq n (static_cast_double (static_cast_int64 n))"
      by (simp add: c)
    then show ?thesis by (simp add: None)
  next
    case (Some t)
    have iv: "integer_value (Finite m e) = Some t" using Some by (simp add: Finite)
    have eq: "double_eq n (static_cast_double (static_cast_int64 n)) \<longleftrightarrow> t = M * 2 ^ E"
      using double_eq_integer_value [OF iv, of M E] by (simp add: Finite c')
    have tr: "truncate_toward_zero m e = t" using iv by (rule truncate_integer_value)
    show ?thesis
    proof (cases "- (2 ^ 63) \<le> t \<and> t < 2 ^ 63")
      case True
      have w: "static_cast_int64 n = word_of_int t"
        using True by (simp add: static_cast_int64_def Finite tr)
      have s: "sint (word_of_int t :: int64_t) = t"
        using True by (intro sint_word_of_int_int64) simp_all
      have "2 ^ nat (bitlen \<bar>t\<bar> - 53) dvd \<bar>t\<bar>"
        using assms iv unfolding Finite by (rule representable_fits_significand)
      then have "2 ^ nat (bitlen \<bar>sint (word_of_int t :: int64_t)\<bar> - 53)
                   dvd \<bar>sint (word_of_int t :: int64_t)\<bar>"
        by (simp only: s)
      from static_cast_double_exact [OF this]
      obtain M' E' where "static_cast_double (word_of_int t) = Finite M' (int E')"
        and "M' * 2 ^ E' = t"
        by (auto simp only: s)
      then have "t = M * 2 ^ E" using c by (simp add: w)
      then show ?thesis using True by (simp add: eq Some)
    next
      case False
      have w: "static_cast_int64 n = word_of_int (- (2 ^ 63))"
        using False by (auto simp: static_cast_int64_def Finite tr)
      obtain M' E' where "static_cast_double (word_of_int (- (2 ^ 63))) = Finite M' (int E')"
        and "M' * 2 ^ E' = - (2 ^ 63)"
        using static_cast_double_int64_min by blast
      then have "M * 2 ^ E = - (2 ^ 63)" using c by (simp add: w)
      then have "t \<noteq> M * 2 ^ E" using False by auto
      then show ?thesis using False by (simp add: eq Some)
    qed
  qed
next
  case (Infinite b)
  obtain M E where c: "static_cast_double (static_cast_int64 n) = Finite M (int E)"
    using static_cast_double_form by blast
  have "\<not> double_eq n (static_cast_double (static_cast_int64 n))"
    by (simp only: c) (simp add: Infinite double_eq_def)
  then show ?thesis by (simp add: Infinite integer_value_def)
next
  case NaN
  show ?thesis by (simp add: NaN double_eq_def integer_value_def)
qed

text \<open>
  Claim C7. For the value at a valid index: when it is not numeric (neither a number nor
  a string that converts to one), \<^verbatim>\<open>lua_isinteger\<close> returns 0; when it is, with number
  \<open>n\<close>, \<^verbatim>\<open>lua_isinteger\<close> returns 1 exactly when \<open>n\<close> equals the \<^verbatim>\<open>double\<close> of its own
  truncation to \<^verbatim>\<open>int64_t\<close>, and 0 otherwise. For a binary64 value \<open>n\<close> that condition
  says that \<open>n\<close> is finite, has no fractional part and lies in the range of \<^verbatim>\<open>int64_t\<close>.
\<close>

theorem lua_isinteger_iff_integral:
  assumes "index2addr L idx = Some p"
  shows "case tonumber str2d (stack L ! p) of
           None \<Rightarrow> lua_isinteger str2d L idx = Some 0
         | Some n \<Rightarrow>
             lua_isinteger str2d L idx
               = Some (if double_eq n (static_cast_double (static_cast_int64 n)) then 1 else 0)
             \<and> (is_double n \<longrightarrow>
                  (lua_isinteger str2d L idx = Some 1
                     \<longleftrightarrow> (case integer_value n of
                            None \<Rightarrow> False
                          | Some t \<Rightarrow> - (2 ^ 63) \<le> t \<and> t < 2 ^ 63)))"
proof (cases "tonumber str2d (stack L ! p)")
  case None
  then show ?thesis
    by (simp add: lua_isinteger_def lua_isnumber_def assms)
next
  case (Some n)
  have r: "lua_isinteger str2d L idx
             = Some (if double_eq n (static_cast_double (static_cast_int64 n)) then 1 else 0)"
    by (simp add: lua_isinteger_def lua_isnumber_def lua_tonumber_def assms Some)
  have "is_double n \<longrightarrow>
          (lua_isinteger str2d L idx = Some 1
             \<longleftrightarrow> (case integer_value n of
                    None \<Rightarrow> False
                  | Some t \<Rightarrow> - (2 ^ 63) \<le> t \<and> t < 2 ^ 63))"
    using double_eq_roundtrip_iff [of n] by (simp add: r)
  then show ?thesis
    using r by (simp add: Some)
qed

theorem lua_isinteger_iff_integral_witness:
  "index2addr (lua_newstate\<lparr>stack := [TNumber (Finite 3 (- 1)), TNumber (Finite 5 1), TNil]\<rparr>) 1
     = Some 0
   \<and> is_double (Finite 3 (- 1))
   \<and> lua_isinteger Map.empty
        (lua_newstate\<lparr>stack := [TNumber (Finite 3 (- 1)), TNumber (Finite 5 1), TNil]\<rparr>) 1 = Some 0
   \<and> index2addr (lua_newstate\<lparr>stack := [TNumber (Finite 3 (- 1)), TNumber (Finite 5 1), TNil]\<rparr>) 2
     = Some 1
   \<and> is_double (Finite 5 1)
   \<and> lua_isinteger Map.empty
        (lua_newstate\<lparr>stack := [TNumber (Finite 3 (- 1)), TNumber (Finite 5 1), TNil]\<rparr>) 2 = Some 1
   \<and> index2addr (lua_newstate\<lparr>stack := [TNumber (Finite 3 (- 1)), TNumber (Finite 5 1), TNil]\<rparr>) 3
     = Some 2
   \<and> lua_isinteger Map.empty
        (lua_newstate\<lparr>stack := [TNumber (Finite 3 (- 1)), TNumber (Finite 5 1), TNil]\<rparr>) 3 = Some 0"
proof -
  define Lw where "Lw = lua_newstate\<lparr>stack := [TNumber (Finite 3 (- 1)), TNumber (Finite 5 1), TNil]\<rparr>"
  have st: "stack Lw = [TNumber (Finite 3 (- 1)), TNumber (Finite 5 1), TNil]"
    by (simp add: Lw_def)
  have i1: "index2addr Lw 1 = Some 0" and i2: "index2addr Lw 2 = Some 1"
    and i3: "index2addr Lw 3 = Some 2"
    by (simp_all add: index2addr_def lua_gettop_def st)
  have d1: "is_double (Finite 3 (- 1))" and d2: "is_double (Finite 5 1)"
    by (simp_all add: is_double_def)
  have v1: "integer_value (Finite 3 (- 1)) = None" and v2: "integer_value (Finite 5 1) = Some 10"
    by (simp_all add: integer_value_def)
  have r1: "lua_isinteger Map.empty Lw 1 = Some 0"
    using lua_isinteger_iff_integral [OF i1, of Map.empty] d1 by (auto simp: st v1 split: if_splits)
  have r2: "lua_isinteger Map.empty Lw 2 = Some 1"
    using lua_isinteger_iff_integral [OF i2, of Map.empty] d2 by (auto simp: st v2 split: if_splits)
  have r3: "lua_isinteger Map.empty Lw 3 = Some 0"
    using lua_isinteger_iff_integral [OF i3, of Map.empty] by (auto simp: st)
  show ?thesis
    unfolding Lw_def [symmetric] using i1 i2 i3 d1 d2 r1 r2 r3 by blast
qed

end
